theory Spec2Isabelle
  imports Complex_Main "HOL-Library.AList"
begin

section \<open>Python values, errors and text conversions\<close>

text \<open>
  The exceptions that the modelled code can raise. \<open>RequestException\<close> stands for every
  exception raised by \<^verbatim>\<open>requests.get\<close> (connection errors, timeouts and the like).
\<close>

datatype error =
    KeyError | IndexError | TypeError | ValueError | AttributeError
  | AssertionError | JSONDecodeError | RequestException

text \<open>
  Scalar Python values as they occur in decoded JSON fields and in cells of the table:
  \<^verbatim>\<open>None\<close>, an unbounded integer, or a string. Floating-point numbers are outside
  the model.
\<close>

datatype pyval = PNone | PInt int | PStr string

type_synonym pydict = "(string \<times> pyval) list"

definition bindE :: "error + 'a \<Rightarrow> ('a \<Rightarrow> error + 'b) \<Rightarrow> error + 'b" where
  "bindE m f = (case m of Inl e \<Rightarrow> Inl e | Inr x \<Rightarrow> f x)"

fun foldE :: "('b \<Rightarrow> 'a \<Rightarrow> error + 'b) \<Rightarrow> 'b \<Rightarrow> 'a list \<Rightarrow> error + 'b" where
  "foldE f acc [] = Inr acc"
| "foldE f acc (x # xs) = (case f acc x of Inl e \<Rightarrow> Inl e | Inr acc' \<Rightarrow> foldE f acc' xs)"

fun mapE :: "('a \<Rightarrow> error + 'b) \<Rightarrow> 'a list \<Rightarrow> error + 'b list" where
  "mapE f [] = Inr []"
| "mapE f (x # xs) =
     (case f x of Inl e \<Rightarrow> Inl e
      | Inr y \<Rightarrow> (case mapE f xs of Inl e \<Rightarrow> Inl e | Inr ys \<Rightarrow> Inr (y # ys)))"

text \<open>\<^verbatim>\<open>d[k]\<close> on a dict: \<^verbatim>\<open>KeyError\<close> when the key is missing.\<close>

definition getitem :: "('k \<times> 'v) list \<Rightarrow> 'k \<Rightarrow> error + 'v" where
  "getitem d k = (case map_of d k of None \<Rightarrow> Inl KeyError | Some v \<Rightarrow> Inr v)"

text \<open>
  The position that \<^verbatim>\<open>xs[i]\<close> reads in a Python list: negative indices count from the
  end, anything outside raises \<^verbatim>\<open>IndexError\<close>.
\<close>

definition py_index :: "'a list \<Rightarrow> int \<Rightarrow> error + nat" where
  "py_index xs i =
     (let n = int (length xs); j = (if i < 0 then n + i else i)
      in if 0 \<le> j \<and> j < n then Inr (nat j) else Inl IndexError)"

subsection \<open>\<^verbatim>\<open>str(n)\<close> and \<^verbatim>\<open>int(s)\<close>\<close>

definition digit_char :: "nat \<Rightarrow> char" where
  "digit_char d = char_of (48 + d)"

fun nat_digits :: "nat \<Rightarrow> string" where
  "nat_digits n =
     (if n < 10 then [digit_char n] else nat_digits (n div 10) @ [digit_char (n mod 10)])"

declare nat_digits.simps [simp del]

text \<open>\<^verbatim>\<open>str(n)\<close> of an integer, also what an f-string and \<^verbatim>\<open>json.dump\<close> print for it.\<close>

definition py_str :: "int \<Rightarrow> string" where
  "py_str n = (if n < 0 then CHR ''-'' # nat_digits (nat (- n)) else nat_digits (nat n))"

definition digit_val :: "char \<Rightarrow> nat option" where
  "digit_val c =
     (let k = (of_char c :: nat) in if 48 \<le> k \<and> k \<le> 57 then Some (k - 48) else None)"

text \<open>
  The characters that \<^verbatim>\<open>int\<close> strips from both ends of a string, among the code
  points below 256: tab, line feed, vertical tab, form feed, carriage return, space,
  next line (133) and no-break space (160).
\<close>

definition is_space :: "char \<Rightarrow> bool" where
  "is_space c = ((of_char c :: nat) \<in> {9, 10, 11, 12, 13, 32, 133, 160})"

definition strip :: "string \<Rightarrow> string" where
  "strip s = rev (dropWhile is_space (rev (dropWhile is_space s)))"

text \<open>
  The digit part of an integer literal: decimal digits, single underscores allowed
  between digits only. The flag records that the previous character was an underscore.
\<close>

fun digits_value :: "nat \<Rightarrow> bool \<Rightarrow> string \<Rightarrow> nat option" where
  "digits_value acc u [] = (if u then None else Some acc)"
| "digits_value acc u (c # cs) =
     (if c = CHR ''_'' then (if u then None else digits_value acc True cs)
      else (case digit_val c of
              None \<Rightarrow> None
            | Some d \<Rightarrow> digits_value (10 * acc + d) False cs))"

definition py_nat :: "string \<Rightarrow> nat option" where
  "py_nat s =
     (case s of
        [] \<Rightarrow> None
      | c # cs \<Rightarrow> if c = CHR ''_'' then None else digits_value 0 False s)"

text \<open>
  \<^verbatim>\<open>int(s)\<close> of a string in base 10; \<open>None\<close> is \<^verbatim>\<open>ValueError\<close>. The limit on
  the number of digits that recent interpreters put on \<^verbatim>\<open>int(s)\<close> and \<^verbatim>\<open>str(n)\<close>
  (4300 by default) is not modelled.
\<close>

definition py_int :: "string \<Rightarrow> int option" where
  "py_int s =
     (case strip s of
        [] \<Rightarrow> None
      | c # cs \<Rightarrow>
          if c = CHR ''-'' then map_option (\<lambda>n. - int n) (py_nat cs)
          else if c = CHR ''+'' then map_option int (py_nat cs)
          else map_option int (py_nat (c # cs)))"

definition int_of_str :: "string \<Rightarrow> error + int" where
  "int_of_str s = (case py_int s of None \<Rightarrow> Inl ValueError | Some n \<Rightarrow> Inr n)"

section \<open>The Stats Extractor\<close>

text \<open>
  A decoded match object of the Stats Source: its scalar fields as a dict, and the value
  under \<^verbatim>\<open>"players"\<close> (a list of dicts) when that key is present.
\<close>

record od_match =
  attrs :: pydict
  players :: "pydict list option"

definition stat_names :: "string list" where
  "stat_names = [''kills'', ''deaths'', ''assists'', ''gold_per_min'', ''xp_per_min'']"

text \<open>One pass of the inner loop: \<^verbatim>\<open>sums[team][i] += p[stat]\<close>.\<close>

definition add_stat :: "pydict \<Rightarrow> int \<Rightarrow> int list list \<Rightarrow> nat \<times> string \<Rightarrow> error + int list list" where
  "add_stat p team tots ist =
     (case ist of (i, stat) \<Rightarrow>
        bindE (py_index tots team) (\<lambda>t.
        bindE (getitem p stat) (\<lambda>v.
          case v of
            PInt n \<Rightarrow> Inr (tots[t := (tots ! t)[i := tots ! t ! i + n]])
          | _ \<Rightarrow> Inl TypeError)))"

text \<open>One pass of the outer loop over \<^verbatim>\<open>match["players"]\<close>.\<close>

definition add_player :: "int list list \<Rightarrow> pydict \<Rightarrow> error + int list list" where
  "add_player tots p =
     bindE (getitem p ''player_slot'') (\<lambda>slot.
       case slot of
         PInt s \<Rightarrow> foldE (add_stat p (s div 128)) tots (enumerate 0 stat_names)
       | _ \<Rightarrow> Inl TypeError)"

definition desired_fields :: "od_match \<Rightarrow> error + pyval list" where
  "desired_fields m =
     bindE (getitem (attrs m) ''match_id'') (\<lambda>match_id.
     bindE (getitem (attrs m) ''radiant_team_id'') (\<lambda>rid.
     bindE (getitem (attrs m) ''dire_team_id'') (\<lambda>did.
     bindE (case players m of None \<Rightarrow> Inl KeyError | Some ps \<Rightarrow> Inr ps) (\<lambda>ps.
     bindE (foldE add_player [[0, 0, 0, 0, 0], [0, 0, 0, 0, 0]] ps) (\<lambda>tots.
       Inr (match_id # rid # map PInt (tots ! 0) @ did # map PInt (tots ! 1)))))))"

subsection \<open>What the extractor is expected to compute\<close>

text \<open>
  The integer stored under a field of a player object (0 when the field is missing or
  not an integer), and the total of one field over the players whose slot lies in a
  range.
\<close>

definition stat_of :: "string \<Rightarrow> pydict \<Rightarrow> int" where
  "stat_of name p = (case map_of p name of Some (PInt n) \<Rightarrow> n | _ \<Rightarrow> 0)"

definition slot_of :: "pydict \<Rightarrow> int" where
  "slot_of p = stat_of ''player_slot'' p"

definition has_int :: "pydict \<Rightarrow> string \<Rightarrow> bool" where
  "has_int p name = (case map_of p name of Some (PInt n) \<Rightarrow> True | _ \<Rightarrow> False)"

text \<open>
  A player object as the Stats Source delivers it: an integer slot between 0 and 255 and
  the five statistics as integers.
\<close>

definition player_ok :: "pydict \<Rightarrow> bool" where
  "player_ok p =
     (has_int p ''player_slot'' \<and> 0 \<le> slot_of p \<and> slot_of p \<le> 255 \<and>
      list_all (has_int p) stat_names)"

definition team_sum :: "int \<Rightarrow> int \<Rightarrow> string \<Rightarrow> pydict list \<Rightarrow> int" where
  "team_sum lo hi name ps =
     sum_list (map (stat_of name) (filter (\<lambda>p. lo \<le> slot_of p \<and> slot_of p \<le> hi) ps))"

definition team_sums :: "int \<Rightarrow> int \<Rightarrow> pydict list \<Rightarrow> int list" where
  "team_sums lo hi ps = map (\<lambda>name. team_sum lo hi name ps) stat_names"

text \<open>
  A synthetic match: five players at slots 0 to 4 and five at slots 128 to 132. The
  player at slot \<open>s\<close> has \<open>k\<close> kills, \<open>k + 1\<close> deaths and so on.
\<close>

definition synthetic_player :: "int \<Rightarrow> int \<Rightarrow> pydict" where
  "synthetic_player s k =
     [(''player_slot'', PInt s), (''kills'', PInt k), (''deaths'', PInt (k + 1)),
      (''assists'', PInt (k + 2)), (''gold_per_min'', PInt (100 * k)),
      (''xp_per_min'', PInt (1000 * k))]"

definition synthetic_match :: od_match where
  "synthetic_match =
     \<lparr>attrs = [(''match_id'', PInt 55555), (''radiant_team_id'', PInt 7),
               (''dire_team_id'', PNone)],
      players = Some [synthetic_player 0 1, synthetic_player 1 2, synthetic_player 2 3,
                      synthetic_player 3 4, synthetic_player 4 5,
                      synthetic_player 128 10, synthetic_player 129 20,
                      synthetic_player 130 30, synthetic_player 131 40,
                      synthetic_player 132 50]\<rparr>"

section \<open>The Rate-Limited Fetcher\<close>

text \<open>
  What the program observes of a response. \<^verbatim>\<open>BeautifulSoup\<close> is not modelled: the
  content of a response is represented by what the two scrapers find in it.
  \<^item> \<open>tbody\<close>: the children of \<^verbatim>\<open>soup.tbody\<close> (\<open>None\<close> when there is no table body).
    Each row is given by its second child, \<^verbatim>\<open>list(row.children)[1]\<close>, or \<open>None\<close>
    when the row has fewer than two children.
  \<^item> \<open>result_link\<close>: the element selected by
    \<^verbatim>\<open>.ld2l-result-description > a:nth-child(2)\<close> (\<open>None\<close> when nothing matches),
    given by its \<^verbatim>\<open>href\<close> attribute (\<open>None\<close> when it has none).
  \<^item> \<open>json\<close>: the value of \<^verbatim>\<open>response.json()\<close>, \<open>None\<close> when decoding fails.
\<close>

record cell =
  span :: bool
  anchor :: "string option option"

record page =
  tbody :: "cell option list option"
  result_link :: "string option option"

record response =
  status_code :: int
  content :: page
  json :: "od_match option"

type_synonym network = "string \<Rightarrow> error + response"

record puller =
  duration :: real
  prev_pull :: real
  base_url :: string

definition RateLimitedPuller :: "real \<Rightarrow> string \<Rightarrow> puller" where
  "RateLimitedPuller seconds base = \<lparr>duration = seconds, prev_pull = 0, base_url = base\<rparr>"

text \<open>
  Time is explicit. \<open>clock\<close> is what \<^verbatim>\<open>time.time()\<close> would return, in seconds, as a
  real number; \<open>issued\<close> logs every request handed to \<^verbatim>\<open>requests.get\<close> with the
  instant at which it starts.

  The surroundings decide how long things take during one call of \<open>pull\<close>:
  \<open>idle\<close> is the time that passed since the previous clock reading when \<^verbatim>\<open>now\<close> is
  read, \<open>oversleep\<close> the time by which \<^verbatim>\<open>time.sleep\<close> exceeds what was asked for,
  \<open>lag\<close> the time between the end of the pause and the start of the request, and
  \<open>latency\<close> the time from the start of the request until the clock is read again.
\<close>

record timeline =
  clock :: real
  issued :: "(string \<times> real) list"

record tick =
  idle :: real
  oversleep :: real
  lag :: real
  latency :: real

definition tick_ok :: "tick \<Rightarrow> bool" where
  "tick_ok tk = (0 \<le> oversleep tk \<and> 0 \<le> lag tk \<and> 0 \<le> latency tk)"

text \<open>
  \<^verbatim>\<open>RateLimitedPuller.pull\<close>. When \<^verbatim>\<open>requests.get\<close> raises, the exception leaves
  the method before \<^verbatim>\<open>self.prev_pull\<close> is assigned.
\<close>

definition pull :: "network \<Rightarrow> tick \<Rightarrow> puller \<Rightarrow> string \<Rightarrow> timeline \<Rightarrow>
    (error + response) \<times> puller \<times> timeline" where
  "pull net tk self url w =
     (let now = clock w + idle tk;
          time_since = now - prev_pull self;
          slept = (if time_since < duration self
                   then (duration self - time_since) + oversleep tk else 0);
          start = now + slept + lag tk;
          w' = \<lparr>clock = start + latency tk,
                issued = issued w @ [(base_url self @ url, start)]\<rparr>
      in case net (base_url self @ url) of
           Inl e \<Rightarrow> (Inl e, self, w')
         | Inr response \<Rightarrow> (Inr response, self\<lparr>prev_pull := clock w'\<rparr>, w'))"

text \<open>
  A sequence of calls on one instance, by a caller that carries on whatever a call
  returns or raises.
\<close>

fun pulls :: "network \<Rightarrow> puller \<Rightarrow> timeline \<Rightarrow> (string \<times> tick) list \<Rightarrow> puller \<times> timeline" where
  "pulls net self w [] = (self, w)"
| "pulls net self w ((url, tk) # calls) =
     (case pull net tk self url w of (r, self', w') \<Rightarrow> pulls net self' w' calls)"

text \<open>Consecutive instants of a list lie at least \<open>d\<close> apart.\<close>

fun spaced :: "real \<Rightarrow> real list \<Rightarrow> bool" where
  "spaced d (a # b # ts) = (d \<le> b - a \<and> spaced d (b # ts))"
| "spaced d ts = True"

definition succeeds :: "network \<Rightarrow> puller \<Rightarrow> string \<Rightarrow> bool" where
  "succeeds net self url = (case net (base_url self @ url) of Inl e \<Rightarrow> False | Inr r \<Rightarrow> True)"

text \<open>Concrete surroundings used to exercise the definitions.\<close>

definition empty_page :: page where
  "empty_page = \<lparr>tbody = None, result_link = None\<rparr>"

definition plain_response :: "int \<Rightarrow> response" where
  "plain_response code = \<lparr>status_code = code, content = empty_page, json = None\<rparr>"

definition net_up :: network where
  "net_up url = Inr (plain_response 200)"

definition net_not_found :: network where
  "net_not_found url = Inr (plain_response 404)"

definition net_down :: network where
  "net_down url = Inl RequestException"

definition quick :: tick where
  "quick = \<lparr>idle = 1, oversleep = 0, lag = 0, latency = 1 / 2\<rparr>"

definition noon :: timeline where
  "noon = \<lparr>clock = 1000, issued = []\<rparr>"

section \<open>The scrapers\<close>

text \<open>\<^verbatim>\<open>int(td.a["href"][9:])\<close> for one cell of the match list.\<close>

definition cell_id :: "cell \<Rightarrow> error + int" where
  "cell_id td =
     (case anchor td of
        None \<Rightarrow> Inl TypeError
      | Some None \<Rightarrow> Inl KeyError
      | Some (Some href) \<Rightarrow> int_of_str (drop 9 href))"

definition scrape_ld2l_completed_matches :: "page \<Rightarrow> error + int set" where
  "scrape_ld2l_completed_matches cont =
     (case tbody cont of
        None \<Rightarrow> Inl AttributeError
      | Some table_rows \<Rightarrow>
          bindE (mapE (\<lambda>row. case row of None \<Rightarrow> Inl IndexError | Some td \<Rightarrow> Inr td)
                   table_rows) (\<lambda>middle_columns.
          bindE (mapE cell_id (filter span middle_columns)) (\<lambda>completed_matches.
            Inr (set completed_matches))))"

definition ld2l_to_opendota :: "page \<Rightarrow> error + int" where
  "ld2l_to_opendota cont =
     (case result_link cont of
        None \<Rightarrow> Inl TypeError
      | Some None \<Rightarrow> Inl KeyError
      | Some (Some od_link) \<Rightarrow> int_of_str (drop 33 od_link))"

section \<open>The Reconciliation Engine\<close>

subsection \<open>Dicts, files and their encodings\<close>

text \<open>
  A key of the pairing dict is a string (as loaded from JSON) or an integer (as recorded
  during a run); Python keeps the two apart. A dict is an association list with distinct
  keys in insertion order: storing under a present key replaces the value in place,
  storing under a new key appends.
\<close>

datatype pykey = KStr string | KInt int

type_synonym pairings = "(pykey \<times> int) list"

text \<open>\<^verbatim>\<open>a | b\<close>: a copy of \<open>a\<close> updated with the items of \<open>b\<close> in order.\<close>

definition dict_union :: "('k \<times> 'v) list \<Rightarrow> ('k \<times> 'v) list \<Rightarrow> ('k \<times> 'v) list" where
  "dict_union a b = fold (\<lambda>kv d. AList.update (fst kv) (snd kv) d) b a"

text \<open>
  The pairing cache file holds a JSON object, given by its members in document order
  (a key may repeat in a document). \<open>json_load\<close> builds the dict, a later member
  replacing an earlier one with the same key; \<open>json_dump\<close> prints every key as a
  string.
\<close>

definition json_load :: "(string \<times> int) list \<Rightarrow> pairings" where
  "json_load doc = dict_union [] (map (\<lambda>kv. (KStr (fst kv), snd kv)) doc)"

definition key_str :: "pykey \<Rightarrow> string" where
  "key_str k = (case k of KStr s \<Rightarrow> s | KInt n \<Rightarrow> py_str n)"

definition json_dump :: "pairings \<Rightarrow> (string \<times> int) list" where
  "json_dump d = map (\<lambda>kv. (key_str (fst kv), snd kv)) d"

text \<open>\<^verbatim>\<open>int(x)\<close> for a key of the pairing dict.\<close>

definition key_int :: "pykey \<Rightarrow> error + int" where
  "key_int k = (case k of KStr s \<Rightarrow> int_of_str s | KInt n \<Rightarrow> Inr n)"

text \<open>
  The table file holds rows of text fields, the header row first. What
  \<^verbatim>\<open>csv.writer\<close> prints for a value: a string as it is, \<^verbatim>\<open>None\<close> as the empty
  field, an integer by \<^verbatim>\<open>str\<close>.
\<close>

definition csv_str :: "pyval \<Rightarrow> string" where
  "csv_str v = (case v of PNone \<Rightarrow> [] | PInt n \<Rightarrow> py_str n | PStr s \<Rightarrow> s)"

definition header :: "string list" where
  "header = [''match_id'',
     ''radiant_team_id'', ''r_kills'', ''r_deaths'', ''r_assists'', ''r_xpm'', ''r_gpm'',
     ''dire_team_id'', ''d_kills'', ''d_deaths'', ''d_assists'', ''d_xpm'', ''d_gpm'']"

text \<open>\<^verbatim>\<open>int(row[0])\<close> for a row read from the table file.\<close>

definition row_id :: "string list \<Rightarrow> error + int" where
  "row_id row = (case row of [] \<Rightarrow> Inl IndexError | c # cs \<Rightarrow> int_of_str c)"

text \<open>
  Durable state: the pairing cache file of the season and the table file, each absent
  or holding a document. The table path (given or derived from the season) only names
  the second file; it is taken to differ from the path of the cache file.
\<close>

record files =
  cache_file :: "(string \<times> int) list option"
  csv_file :: "string list list option"

text \<open>
  What a run does to the outside: a request to a URL (with whether it returned a
  response) and the two writes.
\<close>

datatype event = Fetched string bool | Wrote_cache | Wrote_csv

text \<open>
  The surroundings of a run: the answer of the network to every URL, and the order in
  which a Python set yields its members when iterated (unspecified by the language).
\<close>

record upstream =
  http :: network
  order_of :: "int set \<Rightarrow> int list"

subsection \<open>Statements with effects\<close>

text \<open>
  A statement takes the durable state and gives a value or an exception, the durable
  state after it and the events it caused. An exception ends the run: nothing in
  \<^verbatim>\<open>update_data_for_season\<close> catches one, apart from \<^verbatim>\<open>FileNotFoundError\<close> on
  the two reads.
\<close>

type_synonym 'a prog = "files \<Rightarrow> (error + 'a) \<times> files \<times> event list"

definition returnP :: "'a \<Rightarrow> 'a prog" where
  "returnP x = (\<lambda>fs. (Inr x, fs, []))"

definition liftE :: "error + 'a \<Rightarrow> 'a prog" where
  "liftE r = (\<lambda>fs. (r, fs, []))"

definition bindP :: "'a prog \<Rightarrow> ('a \<Rightarrow> 'b prog) \<Rightarrow> 'b prog" where
  "bindP m f = (\<lambda>fs.
     case m fs of
       (Inl e, fs1, ev1) \<Rightarrow> (Inl e, fs1, ev1)
     | (Inr x, fs1, ev1) \<Rightarrow> (case f x fs1 of (r, fs2, ev2) \<Rightarrow> (r, fs2, ev1 @ ev2)))"

definition assertP :: "bool \<Rightarrow> unit prog" where
  "assertP b = liftE (if b then Inr () else Inl AssertionError)"

definition read_cache :: "(string \<times> int) list option prog" where
  "read_cache = (\<lambda>fs. (Inr (cache_file fs), fs, []))"

definition read_csv :: "string list list option prog" where
  "read_csv = (\<lambda>fs. (Inr (csv_file fs), fs, []))"

definition write_cache :: "(string \<times> int) list \<Rightarrow> unit prog" where
  "write_cache doc = (\<lambda>fs. (Inr (), fs\<lparr>cache_file := Some doc\<rparr>, [Wrote_cache]))"

definition write_csv :: "string list list \<Rightarrow> unit prog" where
  "write_csv rows = (\<lambda>fs. (Inr (), fs\<lparr>csv_file := Some rows\<rparr>, [Wrote_csv]))"

text \<open>
  A pull through one of the two fetchers of a run, as far as the run depends on it: the
  request goes to the base URL followed by the path, and the call returns or raises what
  the network does. The pacing of \<open>pull\<close> changes when the request starts, not what it
  returns.
\<close>

definition pull_from :: "upstream \<Rightarrow> string \<Rightarrow> string \<Rightarrow> response prog" where
  "pull_from env base url = (\<lambda>fs.
     (http env (base @ url), fs,
      [Fetched (base @ url) (case http env (base @ url) of Inl e \<Rightarrow> False | Inr r \<Rightarrow> True)]))"

definition ld2l_base :: string where
  "ld2l_base = ''https://ld2l.gg/''"

definition od_base :: string where
  "od_base = ''https://api.opendota.com/api/''"

subsection \<open>The run\<close>

text \<open>\<^verbatim>\<open>desired_fields(od_puller.pull(f"matches/{id}").json())\<close>\<close>

definition pull_match_row :: "upstream \<Rightarrow> int \<Rightarrow> pyval list prog" where
  "pull_match_row env od_id =
     bindP (pull_from env od_base (''matches/'' @ py_str od_id)) (\<lambda>resp.
     liftE (bindE (case json resp of None \<Rightarrow> Inl JSONDecodeError | Some m \<Rightarrow> Inr m)
              desired_fields))"

text \<open>What the load step leaves in the local variables.\<close>

record loaded =
  cached_id_pairings :: pairings
  cached_ld2l_ids :: "int set"
  cached_od_ids :: "int set"
  known_match_data :: "pyval list list"
  known_data_ids :: "int set"

definition load :: "loaded prog" where
  "load =
     bindP read_cache (\<lambda>cf.
     let pairs = (case cf of None \<Rightarrow> [] | Some doc \<Rightarrow> json_load doc) in
     bindP (liftE (mapE key_int (map fst pairs))) (\<lambda>ks.
     bindP read_csv (\<lambda>tf.
     let table = (case tf of None \<Rightarrow> [] | Some rows \<Rightarrow> drop 1 rows) in
     bindP (liftE (mapE row_id table)) (\<lambda>ids.
     returnP \<lparr>cached_id_pairings = pairs, cached_ld2l_ids = set ks,
              cached_od_ids = set (map snd pairs),
              known_match_data = map (map PStr) table, known_data_ids = set ids\<rparr>))))"

text \<open>The loop that pulls the rows of cached identifiers missing from the table.\<close>

fun pull_missing :: "upstream \<Rightarrow> int list \<Rightarrow> pyval list list \<Rightarrow> pyval list list prog" where
  "pull_missing env [] rows = returnP rows"
| "pull_missing env (missing_id # rest) rows =
     bindP (pull_match_row env missing_id) (\<lambda>row. pull_missing env rest (rows @ [row]))"

definition backfill :: "upstream \<Rightarrow> loaded \<Rightarrow> pyval list list prog" where
  "backfill env st =
     (let cached_but_no_data = cached_od_ids st - known_data_ids st - {0} in
      if cached_but_no_data \<noteq> {}
      then pull_missing env (order_of env cached_but_no_data) (known_match_data st)
      else returnP (known_match_data st))"

definition posted_matches :: "upstream \<Rightarrow> int \<Rightarrow> int set prog" where
  "posted_matches env season_id =
     bindP (pull_from env ld2l_base (''seasons/'' @ py_str season_id @ ''/matches'')) (\<lambda>resp.
     liftE (scrape_ld2l_completed_matches (content resp)))"

text \<open>The loop over the new identifiers: pair each one and pull the match if needed.\<close>

fun pair_and_pull :: "upstream \<Rightarrow> int set \<Rightarrow> int list \<Rightarrow> pairings \<times> pyval list list \<Rightarrow>
    (pairings \<times> pyval list list) prog" where
  "pair_and_pull env known [] acc = returnP acc"
| "pair_and_pull env known (ld2l_id # rest) acc =
     bindP (pull_from env ld2l_base (''matches/'' @ py_str ld2l_id)) (\<lambda>resp.
     bindP (liftE (ld2l_to_opendota (content resp))) (\<lambda>od_id.
     let new_pairings = AList.update (KInt ld2l_id) od_id (fst acc) in
     if od_id \<noteq> 0 \<and> od_id \<notin> known
     then bindP (pull_match_row env od_id) (\<lambda>row.
            pair_and_pull env known rest (new_pairings, snd acc @ [row]))
     else pair_and_pull env known rest (new_pairings, snd acc)))"

definition process_new :: "upstream \<Rightarrow> loaded \<Rightarrow> int set \<Rightarrow> pyval list list \<Rightarrow>
    (pairings \<times> pyval list list) prog" where
  "process_new env st new_ld2l_ids rows =
     (if new_ld2l_ids \<noteq> {}
      then pair_and_pull env (known_data_ids st) (order_of env new_ld2l_ids) ([], rows)
      else returnP ([], rows))"

definition persist :: "pairings \<Rightarrow> pairings \<times> pyval list list \<Rightarrow> unit prog" where
  "persist cached acc =
     bindP (write_cache (json_dump (dict_union cached (fst acc)))) (\<lambda>u.
     write_csv (header # map (map csv_str) (snd acc)))"

text \<open>The part of the run that follows the scan of the match list.\<close>

definition reconcile :: "upstream \<Rightarrow> loaded \<Rightarrow> pyval list list \<Rightarrow> int set \<Rightarrow> unit prog" where
  "reconcile env st rows currently_posted =
     (let new_ld2l_ids = currently_posted - cached_ld2l_ids st in
      bindP (assertP (cached_ld2l_ids st - currently_posted = {})) (\<lambda>u.
      bindP (process_new env st new_ld2l_ids rows) (persist (cached_id_pairings st))))"

definition update_data_for_season :: "upstream \<Rightarrow> int \<Rightarrow> unit prog" where
  "update_data_for_season env season_id =
     bindP load (\<lambda>st.
     bindP (backfill env st) (\<lambda>rows.
     bindP (posted_matches env season_id) (\<lambda>currently_posted.
     reconcile env st rows currently_posted)))"

subsection \<open>A small league\<close>

text \<open>
  Season 33 lists three matches; 101 and 103 carry the winner marker. Match 101 was
  played as Stats match 55555, match 103 was forfeited. Every other URL is unreachable.
\<close>

definition list_page :: page where
  "list_page =
     \<lparr>tbody = Some [Some \<lparr>span = True, anchor = Some (Some ''/matches/101'')\<rparr>,
                    Some \<lparr>span = False, anchor = Some (Some ''/matches/102'')\<rparr>,
                    Some \<lparr>span = True, anchor = Some (Some ''/matches/103'')\<rparr>],
      result_link = None\<rparr>"

definition detail_page :: "string \<Rightarrow> page" where
  "detail_page link = \<lparr>tbody = None, result_link = Some (Some link)\<rparr>"

definition league_http :: network where
  "league_http url =
     (if url = ''https://ld2l.gg/seasons/33/matches''
      then Inr \<lparr>status_code = 200, content = list_page, json = None\<rparr>
      else if url = ''https://ld2l.gg/matches/101''
      then Inr \<lparr>status_code = 200,
                content = detail_page ''https://www.opendota.com/matches/55555'', json = None\<rparr>
      else if url = ''https://ld2l.gg/matches/103''
      then Inr \<lparr>status_code = 200,
                content = detail_page ''https://www.opendota.com/matches/0'', json = None\<rparr>
      else if url = ''https://api.opendota.com/api/matches/55555''
      then Inr \<lparr>status_code = 200, content = empty_page, json = Some synthetic_match\<rparr>
      else Inl RequestException)"

definition league :: upstream where
  "league = \<lparr>http = league_http, order_of = sorted_list_of_set\<rparr>"

definition no_files :: files where
  "no_files = \<lparr>cache_file = None, csv_file = None\<rparr>"

section \<open>Predicates used in the statements\<close>

text \<open>The characters that \<open>nat_digits\<close> produces.\<close>

definition plain_digit :: "char \<Rightarrow> bool" where
  "plain_digit c = (\<exists>d<10. c = digit_char d)"

text \<open>Events and outcomes.\<close>

definition failed_fetch :: "event \<Rightarrow> bool" where
  "failed_fetch ev = (case ev of Fetched url ok \<Rightarrow> \<not> ok | Wrote_cache \<Rightarrow> False | Wrote_csv \<Rightarrow> False)"

definition is_write :: "event \<Rightarrow> bool" where
  "is_write ev = (case ev of Fetched url ok \<Rightarrow> False | Wrote_cache \<Rightarrow> True | Wrote_csv \<Rightarrow> True)"

definition raised :: "error + 'a \<Rightarrow> bool" where
  "raised r = (case r of Inl e \<Rightarrow> True | Inr x \<Rightarrow> False)"

text \<open>
  A statement is \<open>quiet\<close> when it leaves the durable state alone, writes nothing, and
  raises whenever one of its fetches fails. It is \<open>guarded\<close> when a failed fetch or an
  exception implies that it raised, left the durable state alone and wrote nothing.
\<close>

definition quiet :: "'a prog \<Rightarrow> bool" where
  "quiet m = (\<forall>fs. case m fs of (r, fs', evs) \<Rightarrow>
     fs' = fs \<and> \<not> list_ex is_write evs \<and> (list_ex failed_fetch evs \<longrightarrow> raised r))"

definition guarded :: "'a prog \<Rightarrow> bool" where
  "guarded m = (\<forall>fs. case m fs of (r, fs', evs) \<Rightarrow>
     raised r \<or> list_ex failed_fetch evs \<longrightarrow> raised r \<and> fs' = fs \<and> \<not> list_ex is_write evs)"

text \<open>What the load step reads from the two files.\<close>

definition cache_pairs :: "files \<Rightarrow> pairings" where
  "cache_pairs fs = (case cache_file fs of None \<Rightarrow> [] | Some doc \<Rightarrow> json_load doc)"

definition table_rows :: "files \<Rightarrow> string list list" where
  "table_rows fs = (case csv_file fs of None \<Rightarrow> [] | Some rows \<Rightarrow> drop 1 rows)"

text \<open>The \<^verbatim>\<open>stats_match_id\<close> of every row of the table file, as the load step reads them.\<close>

definition table_ids :: "files \<Rightarrow> error + int list" where
  "table_ids fs = mapE row_id (table_rows fs)"

text \<open>
  Iterating over a finite set visits each member exactly once, in whatever order.
\<close>

definition iteration_ok :: "upstream \<Rightarrow> bool" where
  "iteration_ok env =
     (\<forall>S. finite S \<longrightarrow> set (order_of env S) = S \<and> distinct (order_of env S))"

text \<open>The members of a set in the order in which a guarded loop of the run visits them.\<close>

definition visited :: "upstream \<Rightarrow> int set \<Rightarrow> int list" where
  "visited env S = (if S \<noteq> {} then order_of env S else [])"

text \<open>
  The Identifier Mapper applied to the detail page that the Match-List Source serves
  for an Informal Match ID.
\<close>

definition mapped :: "upstream \<Rightarrow> int \<Rightarrow> error + int" where
  "mapped env ld2l_id =
     bindE (http env (ld2l_base @ ''matches/'' @ py_str ld2l_id)) (\<lambda>resp.
       ld2l_to_opendota (content resp))"

text \<open>No two distinct Informal IDs are mapped to the same non-zero Stats Match ID.\<close>

definition mapper_injective :: "upstream \<Rightarrow> bool" where
  "mapper_injective env =
     (\<forall>a b v. a \<noteq> b \<longrightarrow> mapped env a = Inr v \<longrightarrow> mapped env b = Inr v \<longrightarrow> v = 0)"

text \<open>
  The Stats Extractor applied to what the Stats Source serves for a Stats Match ID.
\<close>

definition stats_row :: "upstream \<Rightarrow> int \<Rightarrow> error + pyval list" where
  "stats_row env od_id =
     bindE (http env (od_base @ ''matches/'' @ py_str od_id)) (\<lambda>resp.
     bindE (case json resp of None \<Rightarrow> Inl JSONDecodeError | Some m \<Rightarrow> Inr m)
       desired_fields)"

text \<open>
  Every row that the pull of a Stats Match ID yields has that ID as its
  \<^verbatim>\<open>stats_match_id\<close>: its first column, as written to the table, reads back as the
  requested identifier. Nothing is asked of a pull that fails or whose answer the
  extractor rejects.
\<close>

definition rows_keyed_by_request :: "upstream \<Rightarrow> bool" where
  "rows_keyed_by_request env =
     (\<forall>od_id row. stats_row env od_id = Inr row \<longrightarrow>
        row_id (map csv_str row) = Inr od_id)"

text \<open>More surroundings and durable states for the small league.\<close>

definition league_od_down :: upstream where
  "league_od_down =
     \<lparr>http = (\<lambda>url. if url = ''https://api.opendota.com/api/matches/55555''
                     then Inl RequestException else league_http url),
      order_of = sorted_list_of_set\<rparr>"

definition old_files :: files where
  "old_files = \<lparr>cache_file = Some [(''103'', 0)], csv_file = Some [header]\<rparr>"

definition removed_files :: files where
  "removed_files = \<lparr>cache_file = Some [(''104'', 0)], csv_file = Some [header]\<rparr>"

definition empty_list_page :: page where
  "empty_list_page = \<lparr>tbody = Some [], result_link = None\<rparr>"

definition empty_league :: upstream where
  "empty_league =
     \<lparr>http = (\<lambda>url. if url = ''https://ld2l.gg/seasons/33/matches''
                     then Inr \<lparr>status_code = 200, content = empty_list_page, json = None\<rparr>
                     else Inl RequestException),
      order_of = sorted_list_of_set\<rparr>"

definition done_files :: files where
  "done_files =
     \<lparr>cache_file = Some [(''101'', 55555), (''103'', 0)],
      csv_file = Some [header,
        [''55555'', ''7'', ''15'', ''20'', ''25'', ''1500'', ''15000'', [],
         ''150'', ''155'', ''160'', ''15000'', ''150000'']]\<rparr>"

definition paired_files :: files where
  "paired_files =
     \<lparr>cache_file = Some [(''103'', 0), (''101'', 55555)],
      csv_file = Some [header,
        [''55555'', ''7'', ''15'', ''20'', ''25'', ''1500'', ''15000'', [],
         ''150'', ''155'', ''160'', ''15000'', ''150000'']]\<rparr>"

text \<open>
  A league whose Stats Source answers the request for match 55555 with a record that
  carries another \<^verbatim>\<open>match_id\<close>, namely 0. Its list shows the single completed match 101.
\<close>

definition zero_match :: od_match where
  "zero_match = synthetic_match\<lparr>attrs := [(''match_id'', PInt 0), (''radiant_team_id'', PInt 7),
                                        (''dire_team_id'', PNone)]\<rparr>"

definition single_list_page :: page where
  "single_list_page =
     \<lparr>tbody = Some [Some \<lparr>span = True, anchor = Some (Some ''/matches/101'')\<rparr>],
      result_link = None\<rparr>"

definition careless_http :: network where
  "careless_http url =
     (if url = ''https://ld2l.gg/seasons/33/matches''
      then Inr \<lparr>status_code = 200, content = single_list_page, json = None\<rparr>
      else if url = ''https://ld2l.gg/matches/101''
      then Inr \<lparr>status_code = 200,
                content = detail_page ''https://www.opendota.com/matches/55555'', json = None\<rparr>
      else if url = ''https://api.opendota.com/api/matches/55555''
      then Inr \<lparr>status_code = 200, content = empty_page, json = Some zero_match\<rparr>
      else Inl RequestException)"

definition careless_league :: upstream where
  "careless_league = \<lparr>http = careless_http, order_of = sorted_list_of_set\<rparr>"

definition zero_row :: "string list" where
  "zero_row = [''0'', ''7'', ''15'', ''20'', ''25'', ''1500'', ''15000'', [],
               ''150'', ''155'', ''160'', ''15000'', ''150000'']"

definition zero_files :: files where
  "zero_files = \<lparr>cache_file = Some [(''101'', 55555)], csv_file = Some [header, zero_row]\<rparr>"

definition zero_files_twice :: files where
  "zero_files_twice =
     \<lparr>cache_file = Some [(''101'', 55555)], csv_file = Some [header, zero_row, zero_row]\<rparr>"

text \<open>
  The small league with a Stats Source that, asked for the unknown match 7, answers with
  an error object instead of a match.
\<close>

definition error_object :: od_match where
  "error_object = \<lparr>attrs = [(''error'', PStr ''Not Found'')], players = None\<rparr>"

definition league_not_found :: upstream where
  "league_not_found =
     \<lparr>http = (\<lambda>url. if url = ''https://api.opendota.com/api/matches/7''
                     then Inr \<lparr>status_code = 404, content = empty_page, json = Some error_object\<rparr>
                     else league_http url),
      order_of = sorted_list_of_set\<rparr>"

section \<open>Properties of the text conversions\<close>


lemma digit_char_props:
  assumes "d < 10"
  shows "digit_val (digit_char d) = Some d" and "\<not> is_space (digit_char d)"
    and "digit_char d \<noteq> CHR ''_''" and "digit_char d \<noteq> CHR ''-''" and "digit_char d \<noteq> CHR ''+''"
proof -
  have c: "of_char (digit_char d) = 48 + d"
    using assms by (simp add: digit_char_def)
  show "digit_val (digit_char d) = Some d" using assms by (simp add: digit_val_def c)
  show "\<not> is_space (digit_char d)" using assms by (simp add: is_space_def c)
  have "of_char (digit_char d) \<noteq> (of_char (CHR ''_'') :: nat)" using assms by (simp add: c)
  then show "digit_char d \<noteq> CHR ''_''" by metis
  have "of_char (digit_char d) \<noteq> (of_char (CHR ''-'') :: nat)" using assms by (simp add: c)
  then show "digit_char d \<noteq> CHR ''-''" by metis
  have "of_char (digit_char d) \<noteq> (of_char (CHR ''+'') :: nat)" using assms by (simp add: c)
  then show "digit_char d \<noteq> CHR ''+''" by metis
qed

lemma nat_digits_plain: "list_all plain_digit (nat_digits n)"
proof (induction n rule: nat_digits.induct)
  case (1 n)
  show ?case
  proof (cases "n < 10")
    case True
    then show ?thesis by (subst nat_digits.simps) (auto simp: plain_digit_def)
  next
    case False
    have "n mod 10 < 10" by simp
    then have "plain_digit (digit_char (n mod 10))" unfolding plain_digit_def by blast
    with False 1 show ?thesis by (subst nat_digits.simps) simp
  qed
qed

lemma nat_digits_nonempty: "nat_digits n \<noteq> []"
  by (subst nat_digits.simps) simp

lemma digits_value_digit:
  "d < 10 \<Longrightarrow> digits_value acc False (digit_char d # cs) = digits_value (10 * acc + d) False cs"
  by (simp add: digit_char_props)

lemma digits_value_nat_digits:
  "digits_value acc False (nat_digits n @ cs) =
     digits_value (acc * 10 ^ length (nat_digits n) + n) False cs"
proof (induction n arbitrary: acc cs rule: nat_digits.induct)
  case (1 n)
  show ?case
  proof (cases "n < 10")
    case True
    then have "nat_digits n = [digit_char n]" by (subst nat_digits.simps) simp
    with True show ?thesis by (simp add: digits_value_digit mult.commute del: digits_value.simps)
  next
    case False
    then have e: "nat_digits n = nat_digits (n div 10) @ [digit_char (n mod 10)]"
      by (subst nat_digits.simps) simp
    have "digits_value acc False (nat_digits n @ cs) =
        digits_value acc False (nat_digits (n div 10) @ (digit_char (n mod 10) # cs))"
      by (simp add: e)
    also have "\<dots> = digits_value (acc * 10 ^ length (nat_digits (n div 10)) + n div 10) False
        (digit_char (n mod 10) # cs)"
      using 1[OF False] by simp
    also have "\<dots> = digits_value (10 * (acc * 10 ^ length (nat_digits (n div 10)) + n div 10) + n mod 10) False cs"
      by (rule digits_value_digit) simp
    also have "10 * (acc * 10 ^ length (nat_digits (n div 10)) + n div 10) + n mod 10
        = acc * 10 ^ length (nat_digits n) + n"
      by (simp add: e algebra_simps)
    finally show ?thesis .
  qed
qed

lemma py_nat_nat_digits: "py_nat (nat_digits n) = Some n"
proof -
  obtain c cs where e: "nat_digits n = c # cs"
    using nat_digits_nonempty[of n] by (cases "nat_digits n") auto
  have "plain_digit c" using nat_digits_plain[of n] by (simp add: e)
  then have "c \<noteq> CHR ''_''" by (auto simp: plain_digit_def digit_char_props)
  moreover have "digits_value 0 False (nat_digits n) = Some n"
    using digits_value_nat_digits[of 0 n "[]"] by simp
  ultimately show ?thesis by (simp add: py_nat_def e)
qed

lemma strip_plain:
  assumes "s \<noteq> []" "\<not> is_space (hd s)" "\<not> is_space (last s)"
  shows "strip s = s"
proof -
  have a: "dropWhile is_space s = s" using assms by (cases s) auto
  have "rev s \<noteq> []" "\<not> is_space (hd (rev s))" using assms by (simp_all add: hd_rev)
  then have "dropWhile is_space (rev s) = rev s" by (cases "rev s") auto
  then show ?thesis by (simp add: strip_def a)
qed

lemma nat_digits_ends:
  "plain_digit (hd (nat_digits n))" "plain_digit (last (nat_digits n))"
  using nat_digits_plain[of n] nat_digits_nonempty[of n]
  by (auto simp: list_all_iff)

lemma plain_not_space: "plain_digit c \<Longrightarrow> \<not> is_space c"
  by (auto simp: plain_digit_def digit_char_props)

lemma py_int_py_str: "py_int (py_str n) = Some n"
proof (cases "n < 0")
  case True
  let ?s = "CHR ''-'' # nat_digits (nat (- n))"
  have "\<not> is_space (CHR ''-'')" by (simp add: is_space_def)
  moreover have "\<not> is_space (last ?s)"
    using nat_digits_ends(2)[of "nat (- n)"] nat_digits_nonempty[of "nat (- n)"]
    by (simp add: plain_not_space)
  ultimately have "strip ?s = ?s" by (intro strip_plain) simp_all
  with True show ?thesis by (simp add: py_int_def py_str_def py_nat_nat_digits)
next
  case False
  let ?s = "nat_digits (nat n)"
  obtain c cs where e: "?s = c # cs"
    using nat_digits_nonempty[of "nat n"] by (cases ?s) auto
  have p: "plain_digit c" using nat_digits_ends(1)[of "nat n"] by (simp add: e)
  have "strip ?s = ?s"
    using nat_digits_ends[of "nat n"] nat_digits_nonempty[of "nat n"]
    by (intro strip_plain) (simp_all add: plain_not_space)
  moreover have "c \<noteq> CHR ''-''" "c \<noteq> CHR ''+''"
    using p by (auto simp: plain_digit_def digit_char_props)
  moreover have "py_nat (c # cs) = Some (nat n)" using py_nat_nat_digits[of "nat n"] by (simp add: e)
  ultimately show ?thesis using False by (simp add: py_int_def py_str_def e)
qed

lemma py_str_inj: "py_str a = py_str b \<Longrightarrow> a = b"
  by (metis py_int_py_str option.inject)

text \<open>Rules for evaluating the conversions on literals.\<close>

lemma digit_char_eval:
  "digit_char 0 = CHR ''0''" "digit_char 1 = CHR ''1''" "digit_char (Suc 0) = CHR ''1''"
  "digit_char 2 = CHR ''2''" "digit_char 3 = CHR ''3''" "digit_char 4 = CHR ''4''"
  "digit_char 5 = CHR ''5''" "digit_char 6 = CHR ''6''" "digit_char 7 = CHR ''7''"
  "digit_char 8 = CHR ''8''" "digit_char 9 = CHR ''9''"
  by code_simp+

lemmas py_str_eval = py_str_def nat_digits.simps digit_char_eval

lemmas py_int_eval = int_of_str_def py_int_def strip_def is_space_def py_nat_def digit_val_def

section \<open>Properties of the Stats Extractor\<close>

lemma has_intD: "has_int p name \<Longrightarrow> map_of p name = Some (PInt (stat_of name p))"
  by (auto simp: has_int_def stat_of_def split: option.splits pyval.splits)

lemma player_ok_fields:
  assumes "player_ok p"
  shows "map_of p ''player_slot'' = Some (PInt (slot_of p))"
    and "map_of p ''kills'' = Some (PInt (stat_of ''kills'' p))"
    and "map_of p ''deaths'' = Some (PInt (stat_of ''deaths'' p))"
    and "map_of p ''assists'' = Some (PInt (stat_of ''assists'' p))"
    and "map_of p ''gold_per_min'' = Some (PInt (stat_of ''gold_per_min'' p))"
    and "map_of p ''xp_per_min'' = Some (PInt (stat_of ''xp_per_min'' p))"
  using assms has_intD[of p "''player_slot''"]
  by (simp_all add: player_ok_def slot_of_def stat_names_def has_intD)

text \<open>A player with a slot below 128 is added to the first row of totals only.\<close>

lemma add_player_radiant:
  assumes ok: "player_ok p" and lo: "slot_of p \<le> 127"
  shows "add_player [[a1, a2, a3, a4, a5], d] p =
     Inr [[a1 + stat_of ''kills'' p, a2 + stat_of ''deaths'' p, a3 + stat_of ''assists'' p,
           a4 + stat_of ''gold_per_min'' p, a5 + stat_of ''xp_per_min'' p], d]"
proof -
  have "0 \<le> slot_of p" using ok by (simp add: player_ok_def)
  with lo have t: "slot_of p div 128 = 0" by arith
  show ?thesis
    by (simp add: add_player_def getitem_def bindE_def player_ok_fields[OF ok] t
        stat_names_def add_stat_def py_index_def)
qed

text \<open>A player with a slot from 128 on is added to the second row of totals only.\<close>

lemma add_player_dire:
  assumes ok: "player_ok p" and hi: "128 \<le> slot_of p"
  shows "add_player [r, [a1, a2, a3, a4, a5]] p =
     Inr [r, [a1 + stat_of ''kills'' p, a2 + stat_of ''deaths'' p, a3 + stat_of ''assists'' p,
           a4 + stat_of ''gold_per_min'' p, a5 + stat_of ''xp_per_min'' p]]"
proof -
  have "slot_of p \<le> 255" using ok by (simp add: player_ok_def)
  with hi have t: "slot_of p div 128 = 1" by arith
  show ?thesis
    by (simp add: add_player_def getitem_def bindE_def player_ok_fields[OF ok] t
        stat_names_def add_stat_def py_index_def)
qed

lemma foldE_add_player:
  assumes "list_all player_ok ps"
  shows "foldE add_player [[a1, a2, a3, a4, a5], [b1, b2, b3, b4, b5]] ps =
     Inr [map2 (+) [a1, a2, a3, a4, a5] (team_sums 0 127 ps),
          map2 (+) [b1, b2, b3, b4, b5] (team_sums 128 255 ps)]"
  using assms
proof (induction ps arbitrary: a1 a2 a3 a4 a5 b1 b2 b3 b4 b5)
  case Nil
  then show ?case by (simp add: team_sums_def team_sum_def stat_names_def)
next
  case (Cons p ps)
  then have ok: "player_ok p" and rest: "list_all player_ok ps" by simp_all
  show ?case
  proof (cases "slot_of p \<le> 127")
    case True
    have r: "0 \<le> slot_of p" using ok by (simp add: player_ok_def)
    show ?thesis
      using True r by (simp add: add_player_radiant[OF ok True] Cons.IH[OF rest]
          team_sums_def team_sum_def stat_names_def)
  next
    case False
    then have d: "128 \<le> slot_of p" by simp
    have r: "slot_of p \<le> 255" using ok by (simp add: player_ok_def)
    show ?thesis
      using False r d by (simp add: add_player_dire[OF ok d] Cons.IH[OF rest]
          team_sums_def team_sum_def stat_names_def)
  qed
qed

text \<open>
  Claim C8. For a match object that has \<^verbatim>\<open>match_id\<close>, \<^verbatim>\<open>radiant_team_id\<close>,
  \<^verbatim>\<open>dire_team_id\<close> and a players list whose members each carry an integer slot
  between 0 and 255 and the five integer statistics, \<open>desired_fields\<close> returns the
  13 values: match id, radiant team id, the totals of kills, deaths, assists,
  gold per minute and experience per minute over exactly the players with slots 0 to 127,
  dire team id, and the same five totals over exactly the players with slots 128 to 255.
\<close>

theorem desired_fields_team_sums:
  assumes "map_of (attrs m) ''match_id'' = Some mid"
    and "map_of (attrs m) ''radiant_team_id'' = Some rid"
    and "map_of (attrs m) ''dire_team_id'' = Some did"
    and "players m = Some ps"
    and "list_all player_ok ps"
  shows "desired_fields m =
     Inr (mid # rid # map PInt (team_sums 0 127 ps) @ did # map PInt (team_sums 128 255 ps))"
  using assms(1-4)
  by (simp add: desired_fields_def getitem_def bindE_def foldE_add_player[OF assms(5)]
      team_sums_def stat_names_def)

text \<open>
  The synthetic match with players at slots 0 to 4 and 128 to 132: the totals of the
  first group land in the radiant positions, those of the second group in the dire
  positions.
\<close>

theorem desired_fields_team_sums_witness:
  "list_all player_ok (the (players synthetic_match)) \<and>
   desired_fields synthetic_match =
     Inr [PInt 55555, PInt 7, PInt 15, PInt 20, PInt 25, PInt 1500, PInt 15000,
          PNone, PInt 150, PInt 155, PInt 160, PInt 15000, PInt 150000]"
proof -
  let ?ps = "the (players synthetic_match)"
  have ok: "list_all player_ok ?ps"
    by (simp add: synthetic_match_def synthetic_player_def player_ok_def has_int_def
        slot_of_def stat_of_def stat_names_def)
  have r: "team_sums 0 127 ?ps = [15, 20, 25, 1500, 15000]"
    by (simp add: synthetic_match_def synthetic_player_def team_sums_def team_sum_def
        slot_of_def stat_of_def stat_names_def)
  have d: "team_sums 128 255 ?ps = [150, 155, 160, 15000, 150000]"
    by (simp add: synthetic_match_def synthetic_player_def team_sums_def team_sum_def
        slot_of_def stat_of_def stat_names_def)
  have "desired_fields synthetic_match =
     Inr (PInt 55555 # PInt 7 # map PInt (team_sums 0 127 ?ps) @
          PNone # map PInt (team_sums 128 255 ?ps))"
    by (rule desired_fields_team_sums [OF _ _ _ _ ok])
       (simp_all add: synthetic_match_def)
  then show ?thesis using ok by (simp add: r d)
qed

section \<open>Properties of the Rate-Limited Fetcher\<close>

text \<open>
  One call appends exactly one request to the log. With non-negative delays the request
  starts no earlier than \<open>duration\<close> after the recorded previous instant, whether or not
  the call had to pause.
\<close>

lemma pull_issued:
  assumes "pull net tk self url w = (r, self', w')"
  shows "\<exists>start. issued w' = issued w @ [(base_url self @ url, start)] \<and>
           clock w' = start + latency tk \<and>
           (tick_ok tk \<longrightarrow> prev_pull self + duration self \<le> start)"
  using assms by (auto simp: pull_def Let_def tick_ok_def split: sum.splits if_splits)

lemma pull_success:
  assumes "succeeds net self url" and "pull net tk self url w = (r, self', w')"
  shows "prev_pull self' = clock w' \<and> duration self' = duration self \<and>
         base_url self' = base_url self"
  using assms by (auto simp: pull_def Let_def succeeds_def split: sum.splits)

lemma spaced_snoc:
  "spaced d ts \<Longrightarrow> (ts \<noteq> [] \<Longrightarrow> d \<le> t - last ts) \<Longrightarrow> spaced d (ts @ [t])"
  by (induction d ts rule: spaced.induct) auto

text \<open>
  The invariant of a sequence of successful calls: the log is spaced, and its last
  request started no later than the recorded previous instant.
\<close>

lemma pulls_spaced:
  assumes "list_all (\<lambda>(url, tk). tick_ok tk \<and> succeeds net self url) calls"
    and "spaced (duration self) (map snd (issued w))"
    and "issued w \<noteq> [] \<Longrightarrow> snd (last (issued w)) \<le> prev_pull self"
    and "pulls net self w calls = (self', w')"
  shows "spaced (duration self) (map snd (issued w'))"
  using assms
proof (induction calls arbitrary: self w)
  case Nil
  then show ?case by simp
next
  case (Cons c calls)
  obtain url tk where c: "c = (url, tk)" by (cases c)
  obtain r self1 w1 where p: "pull net tk self url w = (r, self1, w1)"
    by (cases "pull net tk self url w") auto
  from Cons.prems(1) c have ok: "tick_ok tk" and su: "succeeds net self url"
    and rest: "list_all (\<lambda>(url, tk). tick_ok tk \<and> succeeds net self url) calls" by auto
  from pull_issued[OF p] ok obtain start where
    i: "issued w1 = issued w @ [(base_url self @ url, start)]"
    and cl: "clock w1 = start + latency tk" and st: "prev_pull self + duration self \<le> start"
    by auto
  from pull_success[OF su p] have s1: "prev_pull self1 = clock w1"
    "duration self1 = duration self" "base_url self1 = base_url self" by auto
  have rest1: "list_all (\<lambda>(url, tk). tick_ok tk \<and> succeeds net self1 url) calls"
    using rest s1 by (simp add: succeeds_def)
  have a: "spaced (duration self1) (map snd (issued w1))"
  proof (cases "issued w = []")
    case True
    then show ?thesis by (simp add: i)
  next
    case False
    with Cons.prems(3) have "snd (last (issued w)) \<le> prev_pull self" by simp
    with st have "duration self \<le> start - last (map snd (issued w))"
      using False by (simp add: last_map)
    with Cons.prems(2) show ?thesis by (simp add: i s1 spaced_snoc)
  qed
  have b: "issued w1 \<noteq> [] \<Longrightarrow> snd (last (issued w1)) \<le> prev_pull self1"
    using ok by (simp add: i s1 cl tick_ok_def)
  from Cons.prems(4) have "pulls net self1 w1 calls = (self', w')" by (simp add: c p)
  from Cons.IH[OF rest1 a b this] show ?case by (simp add: s1)
qed

text \<open>
  Claim C5. For a fetcher with interval \<open>d\<close> and any sequence of pull calls on it that
  all succeed, the start instants of consecutive issued requests lie at least \<open>d\<close>
  seconds apart. The delays of the surroundings are arbitrary non-negative reals (a
  pause lasts at least as long as asked, a request does not end before it starts);
  the time between two calls is unconstrained.
\<close>

theorem pulls_rate_limited:
  assumes "list_all (\<lambda>(url, tk). tick_ok tk \<and> succeeds net self url) calls"
    and "issued w = []"
    and "pulls net self w calls = (self', w')"
  shows "spaced (duration self) (map snd (issued w'))"
  using pulls_spaced[OF assms(1) _ _ assms(3)] assms(2) by simp

theorem pulls_rate_limited_witness:
  "list_all (\<lambda>(url, tk). tick_ok tk \<and>
       succeeds net_up (RateLimitedPuller 15 ''https://ld2l.gg/'') url)
     [(''seasons/33/matches'', quick), (''matches/1'', quick), (''matches/2'', quick)] \<and>
   issued noon = [] \<and>
   spaced 15 (map snd (issued (snd (pulls net_up (RateLimitedPuller 15 ''https://ld2l.gg/'') noon
     [(''seasons/33/matches'', quick), (''matches/1'', quick), (''matches/2'', quick)]))))"
proof -
  let ?p = "RateLimitedPuller 15 ''https://ld2l.gg/''"
  let ?calls = "[(''seasons/33/matches'', quick), (''matches/1'', quick), (''matches/2'', quick)]"
  have a: "list_all (\<lambda>(url, tk). tick_ok tk \<and> succeeds net_up ?p url) ?calls"
    by (simp add: tick_ok_def quick_def succeeds_def net_up_def)
  have b: "issued noon = []" by (simp add: noon_def)
  have c: "pulls net_up ?p noon ?calls = (fst (pulls net_up ?p noon ?calls), snd (pulls net_up ?p noon ?calls))"
    by simp
  have "spaced (duration ?p) (map snd (issued (snd (pulls net_up ?p noon ?calls))))"
    by (rule pulls_rate_limited [OF a b c])
  then show ?thesis using a b by (simp add: RateLimitedPuller_def)
qed

text \<open>
  Claim C6 as stated fails: when \<^verbatim>\<open>requests.get\<close> raises, the previous-call instant
  is left as it was. Here the network is down; the call raises at clock 1001.5 and the
  instance still holds the initial instant 0.
\<close>

theorem pull_failed_keeps_prev_pull:
  "fst (pull net_down quick (RateLimitedPuller 15 ''https://ld2l.gg/'') ''matches/1'' noon)
     = Inl RequestException \<and>
   prev_pull (fst (snd (pull net_down quick (RateLimitedPuller 15 ''https://ld2l.gg/'')
     ''matches/1'' noon))) = 0 \<and>
   clock (snd (snd (pull net_down quick (RateLimitedPuller 15 ''https://ld2l.gg/'')
     ''matches/1'' noon))) = 2003 / 2"
  by (simp add: RateLimitedPuller_def noon_def quick_def pull_def net_down_def Let_def)

text \<open>
  Claim C6, amended. A call whose network request returns a response (whatever its HTTP
  status) records the clock reading taken after the request as the previous-call
  instant; a call whose network request raises leaves the previous-call instant
  unchanged.
\<close>

theorem pull_prev_pull:
  "prev_pull (fst (snd (pull net tk self url w))) =
     (case net (base_url self @ url) of
        Inl e \<Rightarrow> prev_pull self
      | Inr r \<Rightarrow> clock (snd (snd (pull net tk self url w))))"
  by (simp add: pull_def Let_def split: sum.splits)

text \<open>A response with status 404 is a returned response: the instant is recorded.\<close>

theorem pull_prev_pull_witness:
  "prev_pull (fst (snd (pull net_not_found quick (RateLimitedPuller 15 ''https://ld2l.gg/'')
     ''matches/1'' noon))) = 2003 / 2"
  using pull_prev_pull [of net_not_found quick "RateLimitedPuller 15 ''https://ld2l.gg/''"
      "''matches/1''" noon]
  by (simp add: RateLimitedPuller_def noon_def quick_def pull_def net_not_found_def Let_def)

section \<open>Properties of the run\<close>

subsection \<open>Writes come last\<close>

lemma bindP_Inl: "m fs = (Inl e, fs1, ev1) \<Longrightarrow> bindP m f fs = (Inl e, fs1, ev1)"
  by (simp add: bindP_def)

lemma bindP_Inr:
  "m fs = (Inr x, fs1, ev1) \<Longrightarrow> f x fs1 = (r, fs2, ev2) \<Longrightarrow> bindP m f fs = (r, fs2, ev1 @ ev2)"
  by (simp add: bindP_def)

lemma quietD:
  assumes "quiet m" "m fs = (r, fs', evs)"
  shows "fs' = fs" "\<not> list_ex is_write evs" "list_ex failed_fetch evs \<Longrightarrow> raised r"
  using assms unfolding quiet_def by (auto dest!: spec[of _ fs])

lemma quiet_returnP [simp]: "quiet (returnP x)"
  by (simp add: quiet_def returnP_def)

lemma quiet_liftE [simp]: "quiet (liftE r)"
  by (simp add: quiet_def liftE_def)

lemma quiet_assertP [simp]: "quiet (assertP b)"
  by (simp add: assertP_def)

lemma quiet_read_cache [simp]: "quiet read_cache"
  by (simp add: quiet_def read_cache_def)

lemma quiet_read_csv [simp]: "quiet read_csv"
  by (simp add: quiet_def read_csv_def)

lemma quiet_pull_from [simp]: "quiet (pull_from env base url)"
  by (simp add: quiet_def pull_from_def failed_fetch_def is_write_def raised_def split: sum.splits)

lemma quiet_bindP:
  assumes "quiet m" and "\<And>x. quiet (f x)"
  shows "quiet (bindP m f)"
  unfolding quiet_def
proof
  fix fs
  obtain r1 fs1 ev1 where m: "m fs = (r1, fs1, ev1)" by (cases "m fs") auto
  note q1 = quietD[OF assms(1) m]
  show "case bindP m f fs of (r, fs', evs) \<Rightarrow>
     fs' = fs \<and> \<not> list_ex is_write evs \<and> (list_ex failed_fetch evs \<longrightarrow> raised r)"
  proof (cases r1)
    case (Inl e)
    have "bindP m f fs = (Inl e, fs1, ev1)" using m Inl by (simp add: bindP_def)
    with q1 Inl show ?thesis by (simp add: raised_def)
  next
    case (Inr x)
    obtain r2 fs2 ev2 where f: "f x fs1 = (r2, fs2, ev2)" by (cases "f x fs1") auto
    note q2 = quietD[OF assms(2) f]
    have "bindP m f fs = (r2, fs2, ev1 @ ev2)" using m Inr f by (simp add: bindP_def)
    with q1 q2 Inr show ?thesis by (auto simp: raised_def)
  qed
qed

lemma quiet_pull_match_row [simp]: "quiet (pull_match_row env od_id)"
  unfolding pull_match_row_def by (intro quiet_bindP) simp_all

lemma quiet_load [simp]: "quiet load"
  unfolding load_def Let_def by (intro quiet_bindP) simp_all

lemma quiet_pull_missing [simp]: "quiet (pull_missing env ids rows)"
  by (induction ids arbitrary: rows) (auto intro!: quiet_bindP)

lemma quiet_backfill [simp]: "quiet (backfill env st)"
  by (simp add: backfill_def Let_def)

lemma quiet_posted_matches [simp]: "quiet (posted_matches env season_id)"
  unfolding posted_matches_def by (intro quiet_bindP) simp_all

lemma quiet_pair_and_pull [simp]: "quiet (pair_and_pull env known ids acc)"
  by (induction ids arbitrary: acc) (auto intro!: quiet_bindP simp: Let_def)

lemma quiet_process_new [simp]: "quiet (process_new env st new_ids rows)"
  by (simp add: process_new_def)

lemma guardedD:
  assumes "guarded m" "m fs = (r, fs', evs)" "raised r \<or> list_ex failed_fetch evs"
  shows "raised r" "fs' = fs" "\<not> list_ex is_write evs"
  using assms unfolding guarded_def by (auto dest!: spec[of _ fs])

lemma persist_result:
  "persist cached acc fs =
     (Inr (), fs\<lparr>cache_file := Some (json_dump (dict_union cached (fst acc))),
                csv_file := Some (header # map (map csv_str) (snd acc))\<rparr>,
      [Wrote_cache, Wrote_csv])"
  by (simp add: persist_def bindP_def write_cache_def write_csv_def)

lemma guarded_persist [simp]: "guarded (persist cached acc)"
  by (simp add: guarded_def persist_result raised_def failed_fetch_def)

lemma guarded_bindP:
  assumes "quiet m" and "\<And>x. guarded (f x)"
  shows "guarded (bindP m f)"
  unfolding guarded_def
proof
  fix fs
  obtain r1 fs1 ev1 where m: "m fs = (r1, fs1, ev1)" by (cases "m fs") auto
  note q1 = quietD[OF assms(1) m]
  show "case bindP m f fs of (r, fs', evs) \<Rightarrow>
     raised r \<or> list_ex failed_fetch evs \<longrightarrow> raised r \<and> fs' = fs \<and> \<not> list_ex is_write evs"
  proof (cases r1)
    case (Inl e)
    have "bindP m f fs = (Inl e, fs1, ev1)" using m Inl by (simp add: bindP_def)
    with q1 Inl show ?thesis by (simp add: raised_def)
  next
    case (Inr x)
    obtain r2 fs2 ev2 where f: "f x fs1 = (r2, fs2, ev2)" by (cases "f x fs1") auto
    note g = guardedD[OF assms(2) f]
    have "bindP m f fs = (r2, fs2, ev1 @ ev2)" using m Inr f by (simp add: bindP_def)
    with q1 g Inr show ?thesis by (auto simp: raised_def)
  qed
qed

lemma guarded_reconcile [simp]: "guarded (reconcile env st rows posted)"
  unfolding reconcile_def Let_def by (intro guarded_bindP) simp_all

lemma guarded_update [simp]: "guarded (update_data_for_season env season_id)"
  unfolding update_data_for_season_def by (intro guarded_bindP) simp_all

text \<open>
  Claim C1. If any fetch of a run of \<open>update_data_for_season\<close> fails (the backfill
  pull, the match-list pull, a detail-page pull or a stats pull), the run ends with an
  exception, the pairing cache file and the table file keep exactly their prior
  contents, and no write took place: both writes come after every fetch of the run.
\<close>

theorem fetch_failure_writes_nothing:
  assumes "update_data_for_season env season_id fs = (r, fs', evs)"
    and "list_ex failed_fetch evs"
  shows "raised r \<and> fs' = fs \<and> \<not> list_ex is_write evs"
  using guardedD[OF guarded_update assms(1)] assms(2) by simp

text \<open>Rules for evaluating a run in concrete surroundings.\<close>

lemmas run_eval =
  update_data_for_season_def reconcile_def process_new_def backfill_def posted_matches_def
  load_def persist_def pull_match_row_def pull_from_def
  bindP_def returnP_def liftE_def assertP_def read_cache_def read_csv_def write_cache_def
  write_csv_def bindE_def Let_def
  json_load_def json_dump_def dict_union_def key_int_def key_str_def csv_str_def row_id_def
  header_def ld2l_base_def od_base_def
  scrape_ld2l_completed_matches_def cell_id_def ld2l_to_opendota_def
  league_http_def list_page_def detail_page_def empty_page_def
  py_str_eval py_int_eval

text \<open>
  With the Stats Source unreachable, the run for season 33 fetches the match list and
  the detail page of match 101, then fails on the stats pull; both files are as before.
\<close>

theorem fetch_failure_writes_nothing_witness:
  "list_ex failed_fetch (snd (snd (update_data_for_season league_od_down 33 old_files))) \<and>
   update_data_for_season league_od_down 33 old_files =
     (Inl RequestException, old_files,
      [Fetched ''https://ld2l.gg/seasons/33/matches'' True,
       Fetched ''https://ld2l.gg/matches/101'' True,
       Fetched ''https://api.opendota.com/api/matches/55555'' False])"
proof -
  have sd: "{101, 103} - {103} = {101::int}" by auto
  have run: "update_data_for_season league_od_down 33 old_files =
     (Inl RequestException, old_files,
      [Fetched ''https://ld2l.gg/seasons/33/matches'' True,
       Fetched ''https://ld2l.gg/matches/101'' True,
       Fetched ''https://api.opendota.com/api/matches/55555'' False])"
    by (simp add: run_eval league_od_down_def old_files_def sd)
  have f: "list_ex failed_fetch [Fetched ''https://ld2l.gg/seasons/33/matches'' True,
       Fetched ''https://ld2l.gg/matches/101'' True,
       Fetched ''https://api.opendota.com/api/matches/55555'' False]"
    by (simp add: failed_fetch_def)
  from fetch_failure_writes_nothing [OF run f] run f show ?thesis by simp
qed

subsection \<open>The append-only check\<close>

lemma bindP_InrE:
  assumes "bindP m f fs = (Inr y, fs', evs)"
  obtains x fs1 ev1 ev2 where "m fs = (Inr x, fs1, ev1)" "f x fs1 = (Inr y, fs', ev2)"
    "evs = ev1 @ ev2"
  using assms by (auto simp: bindP_def split: prod.splits sum.splits)

lemma bindP_step:
  assumes "m fs = (Inr x, fs1, ev1)"
  shows "bindP m f fs = (case f x fs1 of (r, fs2, ev2) \<Rightarrow> (r, fs2, ev1 @ ev2))"
  using assms by (simp add: bindP_def)

text \<open>The run from the append-only check on, given what the steps before it produced.\<close>

lemma run_after_scan:
  assumes l: "load fs = (Inr st, fs0, ev0)"
    and b: "backfill env st fs0 = (Inr rows, fs1, ev1)"
    and p: "posted_matches env season_id fs1 = (Inr posted, fs2, ev2)"
  shows "(\<not> cached_ld2l_ids st \<subseteq> posted \<longrightarrow>
            update_data_for_season env season_id fs = (Inl AssertionError, fs, ev0 @ ev1 @ ev2) \<and>
            \<not> list_ex is_write (ev0 @ ev1 @ ev2)) \<and>
         (cached_ld2l_ids st \<subseteq> posted \<longrightarrow>
            update_data_for_season env season_id fs =
              (case bindP (process_new env st (posted - cached_ld2l_ids st) rows)
                      (persist (cached_id_pairings st)) fs of
                 (r, fs', ev) \<Rightarrow> (r, fs', ev0 @ ev1 @ ev2 @ ev)))"
proof -
  have f0: "fs0 = fs" and w0: "\<not> list_ex is_write ev0" using quietD[OF quiet_load l] by auto
  have f1: "fs1 = fs" and w1: "\<not> list_ex is_write ev1"
    using quietD[OF quiet_backfill b] f0 by auto
  have f2: "fs2 = fs" and w2: "\<not> list_ex is_write ev2"
    using quietD[OF quiet_posted_matches p] f1 by auto
  have u: "update_data_for_season env season_id fs =
      (case reconcile env st rows posted fs of (r, fs', ev) \<Rightarrow> (r, fs', ev0 @ ev1 @ ev2 @ ev))"
    unfolding update_data_for_season_def
    using l b p unfolding f0 f1 f2
    by (simp add: bindP_step split: prod.splits)
  show ?thesis
  proof (cases "cached_ld2l_ids st \<subseteq> posted")
    case True
    then have "cached_ld2l_ids st - posted = {}" by auto
    then have "reconcile env st rows posted fs =
       bindP (process_new env st (posted - cached_ld2l_ids st) rows)
                      (persist (cached_id_pairings st)) fs"
      by (simp add: reconcile_def assertP_def liftE_def bindP_def split: prod.splits)
    with True u show ?thesis by simp
  next
    case False
    then have "cached_ld2l_ids st - posted \<noteq> {}" by auto
    then have "reconcile env st rows posted fs = (Inl AssertionError, fs, [])"
      by (simp add: reconcile_def assertP_def liftE_def bindP_def)
    with False u w0 w1 w2 show ?thesis by simp
  qed
qed

text \<open>
  Claim C9. Take a run whose load, backfill and scan of the match list succeed. If some
  Informal Match ID that is a key of the loaded pairing cache is absent from the set of
  completed matches scraped in this run, the run fails with \<^verbatim>\<open>AssertionError\<close>, the
  files are as before and nothing was written; if there is no such ID, the check passes
  and the run continues with the processing of the new matches and the writes.
\<close>

theorem append_only_check:
  assumes l: "load fs = (Inr st, fs0, ev0)"
    and b: "backfill env st fs0 = (Inr rows, fs1, ev1)"
    and p: "posted_matches env season_id fs1 = (Inr posted, fs2, ev2)"
  shows "(\<not> cached_ld2l_ids st \<subseteq> posted \<longrightarrow>
            update_data_for_season env season_id fs = (Inl AssertionError, fs, ev0 @ ev1 @ ev2) \<and>
            \<not> list_ex is_write (ev0 @ ev1 @ ev2)) \<and>
         (cached_ld2l_ids st \<subseteq> posted \<longrightarrow>
            update_data_for_season env season_id fs =
              (case bindP (process_new env st (posted - cached_ld2l_ids st) rows)
                      (persist (cached_id_pairings st)) fs of
                 (r, fs', ev) \<Rightarrow> (r, fs', ev0 @ ev1 @ ev2 @ ev)))"
  using run_after_scan [OF assms] .

subsection \<open>A run without new data\<close>

lemma load_eq:
  "load fs =
     (case mapE key_int (map fst (cache_pairs fs)) of
        Inl e \<Rightarrow> (Inl e, fs, [])
      | Inr ks \<Rightarrow>
          (case mapE row_id (table_rows fs) of
             Inl e \<Rightarrow> (Inl e, fs, [])
           | Inr ids \<Rightarrow>
               (Inr \<lparr>cached_id_pairings = cache_pairs fs, cached_ld2l_ids = set ks,
                       cached_od_ids = set (map snd (cache_pairs fs)),
                       known_match_data = map (map PStr) (table_rows fs),
                       known_data_ids = set ids\<rparr>, fs, [])))"
  by (simp add: load_def bindP_def read_cache_def read_csv_def liftE_def returnP_def Let_def
      cache_pairs_def table_rows_def split: sum.splits)

lemma load_result:
  assumes "load fs = (Inr st, fs0, ev0)"
  shows "fs0 = fs" "ev0 = []" "cached_id_pairings st = cache_pairs fs"
    "known_match_data st = map (map PStr) (table_rows fs)"
    "cached_od_ids st = set (map snd (cache_pairs fs))"
    "\<exists>ks. mapE key_int (map fst (cache_pairs fs)) = Inr ks \<and> cached_ld2l_ids st = set ks"
    "\<exists>ids. table_ids fs = Inr ids \<and> known_data_ids st = set ids"
  using assms unfolding load_eq table_ids_def by (force split: sum.splits)+

lemma posted_matches_events:
  assumes "posted_matches env season_id fs = (Inr posted, fs2, ev2)"
  shows "ev2 = [Fetched (ld2l_base @ ''seasons/'' @ py_str season_id @ ''/matches'') True]"
  using assms
  by (auto simp: posted_matches_def bindP_def pull_from_def liftE_def split: sum.splits prod.splits)

lemma dict_union_empty [simp]: "dict_union d [] = d"
  by (simp add: dict_union_def)

lemma csv_str_comp_PStr [simp]: "csv_str \<circ> PStr = id"
  by (simp add: fun_eq_iff csv_str_def)

lemma csv_str_PStr [simp]: "map (map csv_str) (map (map PStr) rows) = rows"
  by simp

text \<open>The run that has nothing to pull.\<close>

lemma run_without_new_data:
  assumes l: "load fs = (Inr st, fs0, ev0)"
    and nb: "cached_od_ids st - known_data_ids st - {0} = {}"
    and p: "posted_matches env season_id fs = (Inr posted, fs2, ev2)"
    and nn: "posted - cached_ld2l_ids st = {}"
    and ao: "cached_ld2l_ids st - posted = {}"
  shows "update_data_for_season env season_id fs =
     (Inr (),
      \<lparr>cache_file = Some (json_dump (cache_pairs fs)), csv_file = Some (header # table_rows fs)\<rparr>,
      [Fetched (ld2l_base @ ''seasons/'' @ py_str season_id @ ''/matches'') True,
       Wrote_cache, Wrote_csv])"
proof -
  note lr = load_result[OF l]
  have b: "backfill env st fs0 = (Inr (known_match_data st), fs, [])"
    using nb by (simp add: backfill_def returnP_def lr)
  have p': "posted_matches env season_id fs = (Inr posted, fs, ev2)"
    using p quietD(1)[OF quiet_posted_matches p] by simp
  have sub: "cached_ld2l_ids st \<subseteq> posted" using ao by auto
  have pn: "process_new env st (posted - cached_ld2l_ids st) (known_match_data st) fs
      = (Inr ([], known_match_data st), fs, [])"
    using nn by (simp add: process_new_def returnP_def)
  have "update_data_for_season env season_id fs =
      (case bindP (process_new env st (posted - cached_ld2l_ids st) (known_match_data st))
                      (persist (cached_id_pairings st)) fs of
                 (r, fs', ev) \<Rightarrow> (r, fs', ev0 @ [] @ ev2 @ ev))"
    using run_after_scan[OF l b p'] sub by simp
  also have "\<dots> = (Inr (),
      fs\<lparr>cache_file := Some (json_dump (cache_pairs fs)), csv_file := Some (header # table_rows fs)\<rparr>,
      ev2 @ [Wrote_cache, Wrote_csv])"
    using pn by (simp add: bindP_def persist_result lr)
  finally show ?thesis by (simp add: posted_matches_events[OF p])
qed

text \<open>
  Claim C4, amended. When a run finds no new completed matches, needs no backfill and
  passes the append-only check, it terminates normally after the single fetch of the
  match list and writes both files: the pairing cache receives the pairings as loaded,
  the table the header followed by the rows as loaded.
\<close>

theorem no_new_data_rewrites:
  assumes l: "load fs = (Inr st, fs0, ev0)"
    and nb: "cached_od_ids st - known_data_ids st - {0} = {}"
    and p: "posted_matches env season_id fs = (Inr posted, fs2, ev2)"
    and nn: "posted - cached_ld2l_ids st = {}"
    and ao: "cached_ld2l_ids st - posted = {}"
  shows "update_data_for_season env season_id fs =
     (Inr (),
      \<lparr>cache_file = Some (json_dump (cache_pairs fs)), csv_file = Some (header # table_rows fs)\<rparr>,
      [Fetched (ld2l_base @ ''seasons/'' @ py_str season_id @ ''/matches'') True,
       Wrote_cache, Wrote_csv])"
  using run_without_new_data [OF assms] .

subsection \<open>The check and the run without new data on the small league\<close>

text \<open>
  With a cached match 104 that the list no longer shows, the run stops at the check; with
  the cached match 103 still listed, the run goes on to pair match 101, pull its
  statistics and write both files.
\<close>

theorem append_only_check_witness:
  "update_data_for_season league 33 removed_files =
     (Inl AssertionError, removed_files, [Fetched ''https://ld2l.gg/seasons/33/matches'' True]) \<and>
   update_data_for_season league 33 old_files =
     (Inr (),
      \<lparr>cache_file = Some [(''103'', 0), (''101'', 55555)],
        csv_file = Some [header,
          [''55555'', ''7'', ''15'', ''20'', ''25'', ''1500'', ''15000'', [],
           ''150'', ''155'', ''160'', ''15000'', ''150000'']]\<rparr>,
      [Fetched ''https://ld2l.gg/seasons/33/matches'' True,
       Fetched ''https://ld2l.gg/matches/101'' True,
       Fetched ''https://api.opendota.com/api/matches/55555'' True, Wrote_cache, Wrote_csv])"
proof -
  let ?st = "\<lparr>cached_id_pairings = [(KStr ''104'', 0)], cached_ld2l_ids = {104},
      cached_od_ids = {0}, known_match_data = [], known_data_ids = {}\<rparr>"
  have l: "load removed_files = (Inr ?st, removed_files, [])"
    by (simp add: run_eval removed_files_def)
  have b: "backfill league ?st removed_files = (Inr [], removed_files, [])"
    by (simp add: run_eval)
  have p: "posted_matches league 33 removed_files =
      (Inr {101, 103}, removed_files, [Fetched ''https://ld2l.gg/seasons/33/matches'' True])"
    by (simp add: run_eval league_def)
  have n: "\<not> cached_ld2l_ids ?st \<subseteq> {101, 103}" by simp
  let ?st' = "\<lparr>cached_id_pairings = [(KStr ''103'', 0)], cached_ld2l_ids = {103},
      cached_od_ids = {0}, known_match_data = [], known_data_ids = {}\<rparr>"
  have l': "load old_files = (Inr ?st', old_files, [])"
    by (simp add: run_eval old_files_def)
  have b': "backfill league ?st' old_files = (Inr [], old_files, [])"
    by (simp add: run_eval)
  have p': "posted_matches league 33 old_files =
      (Inr {101, 103}, old_files, [Fetched ''https://ld2l.gg/seasons/33/matches'' True])"
    by (simp add: run_eval league_def)
  have y: "cached_ld2l_ids ?st' \<subseteq> {101, 103}" by simp
  have sd: "{101, 103} - {103} = {101::int}" by auto
  have df: "desired_fields synthetic_match =
     Inr [PInt 55555, PInt 7, PInt 15, PInt 20, PInt 25, PInt 1500, PInt 15000,
          PNone, PInt 150, PInt 155, PInt 160, PInt 15000, PInt 150000]"
    by (simp add: desired_fields_def getitem_def bindE_def synthetic_match_def synthetic_player_def
        add_player_def add_stat_def stat_names_def py_index_def)
  have k: "(case bindP (process_new league ?st' ({101, 103} - cached_ld2l_ids ?st') [])
                      (persist (cached_id_pairings ?st')) old_files of
                 (r, fs', ev) \<Rightarrow> (r, fs', [] @ [] @
                    [Fetched ''https://ld2l.gg/seasons/33/matches'' True] @ ev)) =
     (Inr (),
      \<lparr>cache_file = Some [(''103'', 0), (''101'', 55555)],
        csv_file = Some [header,
          [''55555'', ''7'', ''15'', ''20'', ''25'', ''1500'', ''15000'', [],
           ''150'', ''155'', ''160'', ''15000'', ''150000'']]\<rparr>,
      [Fetched ''https://ld2l.gg/seasons/33/matches'' True,
       Fetched ''https://ld2l.gg/matches/101'' True,
       Fetched ''https://api.opendota.com/api/matches/55555'' True, Wrote_cache, Wrote_csv])"
    by (simp add: sd run_eval league_def df old_files_def)
  from append_only_check [OF l b p] n append_only_check [OF l' b' p'] y k
  show ?thesis by simp
qed

text \<open>
  Claim C4 as stated fails: the two writes are not conditional. With no files and a match
  list without completed matches, there is nothing to backfill and no new match, and the
  run still writes: it creates the pairing cache file with an empty object and the
  table file with the header alone.
\<close>

theorem no_new_data_still_writes:
  "load no_files =
     (Inr \<lparr>cached_id_pairings = [], cached_ld2l_ids = {}, cached_od_ids = {},
            known_match_data = [], known_data_ids = {}\<rparr>, no_files, []) \<and>
   posted_matches empty_league 33 no_files =
     (Inr {}, no_files, [Fetched ''https://ld2l.gg/seasons/33/matches'' True]) \<and>
   update_data_for_season empty_league 33 no_files =
     (Inr (), \<lparr>cache_file = Some [], csv_file = Some [header]\<rparr>,
      [Fetched ''https://ld2l.gg/seasons/33/matches'' True, Wrote_cache, Wrote_csv])"
  by (simp add: run_eval empty_league_def empty_list_page_def no_files_def)

text \<open>
  A second run on the small league finds nothing new and writes both files back with
  the contents they had.
\<close>

theorem no_new_data_rewrites_witness:
  "update_data_for_season league 33 done_files =
     (Inr (), done_files,
      [Fetched ''https://ld2l.gg/seasons/33/matches'' True, Wrote_cache, Wrote_csv])"
proof -
  let ?st = "\<lparr>cached_id_pairings = [(KStr ''101'', 55555), (KStr ''103'', 0)],
      cached_ld2l_ids = {101, 103}, cached_od_ids = {55555, 0},
      known_match_data = [map PStr [''55555'', ''7'', ''15'', ''20'', ''25'', ''1500'', ''15000'', [],
         ''150'', ''155'', ''160'', ''15000'', ''150000'']], known_data_ids = {55555}\<rparr>"
  have l: "load done_files = (Inr ?st, done_files, [])"
    by (simp add: run_eval done_files_def)
  have nb: "cached_od_ids ?st - known_data_ids ?st - {0} = {}" by simp
  have p: "posted_matches league 33 done_files =
      (Inr {101, 103}, done_files, [Fetched ''https://ld2l.gg/seasons/33/matches'' True])"
    by (simp add: run_eval league_def)
  have nn: "{101, 103} - cached_ld2l_ids ?st = {}" by simp
  have ao: "cached_ld2l_ids ?st - {101, 103} = {}" by simp
  have c: "json_dump (cache_pairs done_files) = [(''101'', 55555), (''103'', 0)]"
    by (simp add: cache_pairs_def done_files_def run_eval)
  have t: "header # table_rows done_files = [header,
        [''55555'', ''7'', ''15'', ''20'', ''25'', ''1500'', ''15000'', [],
         ''150'', ''155'', ''160'', ''15000'', ''150000'']]"
    by (simp add: table_rows_def done_files_def)
  from no_new_data_rewrites [OF l nb p nn ao] show ?thesis
    by (simp add: c t py_str_eval ld2l_base_def) (simp add: done_files_def)
qed

subsection \<open>Dicts\<close>

lemma update_fresh: "k \<notin> fst ` set al \<Longrightarrow> AList.update k v al = al @ [(k, v)]"
  by (induction al) auto

lemma dict_union_keys: "fst ` set (dict_union a b) = fst ` set a \<union> fst ` set b"
  unfolding dict_union_def
  by (induction b arbitrary: a) (auto simp: dom_update)

lemma dict_union_distinct: "distinct (map fst a) \<Longrightarrow> distinct (map fst (dict_union a b))"
  unfolding dict_union_def
  by (induction b arbitrary: a) (auto simp: distinct_update)

lemma dict_union_fresh:
  "distinct (map fst b) \<Longrightarrow> fst ` set a \<inter> fst ` set b = {} \<Longrightarrow> dict_union a b = a @ b"
proof (induction b arbitrary: a)
  case Nil
  then show ?case by (simp add: dict_union_def)
next
  case (Cons kv b)
  obtain k v where kv: "kv = (k, v)" by (cases kv)
  have k: "k \<notin> fst ` set a" using Cons.prems(2) kv by auto
  have "dict_union a (kv # b) = dict_union (a @ [(k, v)]) b"
    by (simp add: dict_union_def kv update_fresh[OF k])
  also have "\<dots> = (a @ [(k, v)]) @ b"
    using Cons.prems kv by (intro Cons.IH) auto
  finally show ?case by (simp add: kv)
qed

lemma json_load_keys: "fst ` set (json_load doc) = KStr ` fst ` set doc"
  by (simp add: json_load_def dict_union_keys image_image)

lemma json_load_distinct: "distinct (map fst (json_load doc))"
  by (simp add: json_load_def dict_union_distinct)

lemma json_load_plain:
  assumes "distinct (map fst doc)"
  shows "json_load doc = map (\<lambda>kv. (KStr (fst kv), snd kv)) doc"
proof -
  have "distinct (map fst (map (\<lambda>kv. (KStr (fst kv), snd kv)) doc))"
    using assms by (simp add: comp_def distinct_map inj_on_def)
  then show ?thesis unfolding json_load_def by (subst dict_union_fresh) simp_all
qed

lemma json_dump_plain: "json_dump (map (\<lambda>kv. (KStr (fst kv), snd kv)) doc) = doc"
  by (simp add: json_dump_def key_str_def comp_def)

lemma json_dump_append: "json_dump (a @ b) = json_dump a @ json_dump b"
  by (simp add: json_dump_def)

text \<open>A dict whose keys are all strings is written and read back unchanged.\<close>

lemma json_load_dump:
  assumes "distinct (map fst d)" "fst ` set d \<subseteq> range KStr"
  shows "json_load (json_dump d) = d"
proof -
  have e: "map (\<lambda>kv. (KStr (fst kv), snd kv)) (json_dump d) = d"
    using assms(2)
    by (induction d) (auto simp: json_dump_def key_str_def)
  have "map fst (json_dump d) = map (key_str \<circ> fst) d" by (simp add: json_dump_def comp_def)
  moreover have "inj_on (key_str \<circ> fst) (set d)"
  proof (rule inj_onI)
    fix x y assume x: "x \<in> set d" and y: "y \<in> set d" and k: "(key_str \<circ> fst) x = (key_str \<circ> fst) y"
    from x y assms(2) obtain s t where "fst x = KStr s" "fst y = KStr t" by (metis image_eqI rangeE subsetD)
    with k have "fst x = fst y" by (simp add: key_str_def)
    moreover have "inj_on fst (set d)" using assms(1) by (simp add: distinct_map)
    ultimately show "x = y" using x y by (auto dest: inj_onD)
  qed
  ultimately have "distinct (map fst (json_dump d))"
    using assms(1) by (simp add: distinct_map)
  then show ?thesis by (simp add: json_load_plain e)
qed

lemma cache_pairs_keys: "fst ` set (cache_pairs fs) \<subseteq> range KStr"
proof (cases "cache_file fs")
  case None
  then show ?thesis by (simp add: cache_pairs_def)
next
  case (Some doc)
  have "fst ` set (json_load doc) \<subseteq> range KStr" unfolding json_load_keys by auto
  with Some show ?thesis by (simp add: cache_pairs_def)
qed

lemma cache_pairs_distinct: "distinct (map fst (cache_pairs fs))"
  by (simp add: cache_pairs_def json_load_distinct split: option.splits)

subsection \<open>Lists of results\<close>

lemma mapE_Inr_iff: "mapE f xs = Inr ys \<longleftrightarrow> list_all2 (\<lambda>x y. f x = Inr y) xs ys"
proof (induction xs arbitrary: ys)
  case Nil
  then show ?case by auto
next
  case (Cons x xs)
  show ?case
    by (cases ys) (auto simp: Cons.IH[symmetric] split: sum.splits)
qed

lemma mapE_append:
  "mapE f xs = Inr ys \<Longrightarrow> mapE f xs' = Inr ys' \<Longrightarrow> mapE f (xs @ xs') = Inr (ys @ ys')"
  by (simp add: mapE_Inr_iff list_all2_appendI)

subsection \<open>The two loops\<close>

lemma pull_match_row_eq:
  "pull_match_row env od_id fs =
     (stats_row env od_id, fs,
      [Fetched (od_base @ ''matches/'' @ py_str od_id)
         (case http env (od_base @ ''matches/'' @ py_str od_id) of
            Inl e \<Rightarrow> False | Inr r \<Rightarrow> True)])"
  by (simp add: pull_match_row_def stats_row_def bindP_def pull_from_def liftE_def bindE_def
      split: sum.splits)

lemma pull_detail_eq:
  "bindP (pull_from env ld2l_base (''matches/'' @ py_str ld2l_id))
     (\<lambda>resp. liftE (ld2l_to_opendota (content resp))) fs =
     (mapped env ld2l_id, fs,
      [Fetched (ld2l_base @ ''matches/'' @ py_str ld2l_id)
         (case http env (ld2l_base @ ''matches/'' @ py_str ld2l_id) of
            Inl e \<Rightarrow> False | Inr r \<Rightarrow> True)])"
  by (simp add: mapped_def bindP_def pull_from_def liftE_def bindE_def split: sum.splits)

lemma pull_missing_result:
  assumes "pull_missing env ids rows fs = (Inr rows', fs', ev)"
  shows "\<exists>new. rows' = rows @ new \<and> list_all2 (\<lambda>v row. stats_row env v = Inr row) ids new"
  using assms
proof (induction ids arbitrary: rows ev)
  case Nil
  then show ?case by (simp add: returnP_def)
next
  case (Cons v ids)
  from Cons.prems obtain row ev' where r: "stats_row env v = Inr row"
    and rest: "pull_missing env ids (rows @ [row]) fs = (Inr rows', fs', ev')"
    by (auto simp: bindP_def pull_match_row_eq split: sum.splits prod.splits)
  from Cons.IH[OF rest] obtain new where "rows' = (rows @ [row]) @ new"
    "list_all2 (\<lambda>v row. stats_row env v = Inr row) ids new" by blast
  with r have "rows' = rows @ (row # new) \<and>
      list_all2 (\<lambda>v row. stats_row env v = Inr row) (v # ids) (row # new)" by simp
  then show ?case by blast
qed

lemma pair_and_pull_step:
  "pair_and_pull env known (i # ids) acc fs =
     (case mapped env i of
        Inl e \<Rightarrow> (Inl e, fs,
          [Fetched (ld2l_base @ ''matches/'' @ py_str i)
            (case http env (ld2l_base @ ''matches/'' @ py_str i) of Inl e \<Rightarrow> False | Inr r \<Rightarrow> True)])
      | Inr v \<Rightarrow>
          (case (if v \<noteq> 0 \<and> v \<notin> known
                 then bindP (pull_match_row env v) (\<lambda>row.
                        pair_and_pull env known ids
                          (AList.update (KInt i) v (fst acc), snd acc @ [row]))
                 else pair_and_pull env known ids (AList.update (KInt i) v (fst acc), snd acc)) fs
           of (r, fs2, ev2) \<Rightarrow>
             (r, fs2,
              Fetched (ld2l_base @ ''matches/'' @ py_str i)
                (case http env (ld2l_base @ ''matches/'' @ py_str i) of Inl e \<Rightarrow> False | Inr r \<Rightarrow> True)
              # ev2)))"
  by (simp add: mapped_def bindP_def pull_from_def liftE_def bindE_def Let_def
      split: sum.splits prod.splits)

lemma pair_and_pull_result:
  assumes "pair_and_pull env known ids acc fs = (Inr acc', fs', ev)"
  shows "\<exists>vs new. list_all2 (\<lambda>i v. mapped env i = Inr v) ids vs \<and>
     fst acc' = dict_union (fst acc) (map (\<lambda>iv. (KInt (fst iv), snd iv)) (zip ids vs)) \<and>
     snd acc' = snd acc @ new \<and>
     list_all2 (\<lambda>v row. stats_row env v = Inr row) (filter (\<lambda>v. v \<noteq> 0 \<and> v \<notin> known) vs) new"
  using assms
proof (induction ids arbitrary: acc ev)
  case Nil
  then show ?case by (simp add: returnP_def dict_union_def)
next
  case (Cons i ids)
  from Cons.prems obtain v where m: "mapped env i = Inr v"
    by (auto simp: pair_and_pull_step simp del: pair_and_pull.simps split: sum.splits)
  let ?np = "AList.update (KInt i) v (fst acc)"
  show ?case
  proof (cases "v \<noteq> 0 \<and> v \<notin> known")
    case True
    from Cons.prems m True obtain row ev' where r: "stats_row env v = Inr row"
      and rest: "pair_and_pull env known ids (?np, snd acc @ [row]) fs = (Inr acc', fs', ev')"
      by (auto simp: pair_and_pull_step bindP_def pull_match_row_eq simp del: pair_and_pull.simps
          split: sum.splits prod.splits)
    from Cons.IH[OF rest] obtain vs new where
      a: "list_all2 (\<lambda>i v. mapped env i = Inr v) ids vs"
      and b: "fst acc' = dict_union ?np (map (\<lambda>iv. (KInt (fst iv), snd iv)) (zip ids vs))"
      and c: "snd acc' = (snd acc @ [row]) @ new"
      and d: "list_all2 (\<lambda>v row. stats_row env v = Inr row)
                (filter (\<lambda>v. v \<noteq> 0 \<and> v \<notin> known) vs) new"
      by auto
    have "list_all2 (\<lambda>i v. mapped env i = Inr v) (i # ids) (v # vs) \<and>
      fst acc' = dict_union (fst acc) (map (\<lambda>iv. (KInt (fst iv), snd iv)) (zip (i # ids) (v # vs))) \<and>
      snd acc' = snd acc @ (row # new) \<and>
      list_all2 (\<lambda>v row. stats_row env v = Inr row)
                (filter (\<lambda>v. v \<noteq> 0 \<and> v \<notin> known) (v # vs)) (row # new)"
      using a b c d m r True by (simp add: dict_union_def)
    then show ?thesis by blast
  next
    case False
    from Cons.prems m False obtain ev' where
      rest: "pair_and_pull env known ids (?np, snd acc) fs = (Inr acc', fs', ev')"
      by (auto simp: pair_and_pull_step simp del: pair_and_pull.simps
          split: sum.splits prod.splits)
    from Cons.IH[OF rest] obtain vs new where
      a: "list_all2 (\<lambda>i v. mapped env i = Inr v) ids vs"
      and b: "fst acc' = dict_union ?np (map (\<lambda>iv. (KInt (fst iv), snd iv)) (zip ids vs))"
      and c: "snd acc' = snd acc @ new"
      and d: "list_all2 (\<lambda>v row. stats_row env v = Inr row)
                (filter (\<lambda>v. v \<noteq> 0 \<and> v \<notin> known) vs) new"
      by auto
    have "list_all2 (\<lambda>i v. mapped env i = Inr v) (i # ids) (v # vs) \<and>
      fst acc' = dict_union (fst acc) (map (\<lambda>iv. (KInt (fst iv), snd iv)) (zip (i # ids) (v # vs))) \<and>
      snd acc' = snd acc @ new \<and>
      list_all2 (\<lambda>v row. stats_row env v = Inr row)
                (filter (\<lambda>v. v \<noteq> 0 \<and> v \<notin> known) (v # vs)) new"
      using a b c d m False by (auto simp: dict_union_def)
    then show ?thesis by blast
  qed
qed

subsection \<open>Completed runs\<close>

lemma update_completed:
  assumes "update_data_for_season env season_id fs = (Inr (), fs', evs)"
  shows "\<exists>st rows posted acc ev0 ev1 ev2 ev3.
     load fs = (Inr st, fs, ev0) \<and>
     backfill env st fs = (Inr rows, fs, ev1) \<and>
     posted_matches env season_id fs = (Inr posted, fs, ev2) \<and>
     cached_ld2l_ids st \<subseteq> posted \<and>
     process_new env st (posted - cached_ld2l_ids st) rows fs = (Inr acc, fs, ev3) \<and>
     fs' = fs\<lparr>cache_file := Some (json_dump (dict_union (cached_id_pairings st) (fst acc))),
              csv_file := Some (header # map (map csv_str) (snd acc))\<rparr>"
proof -
  from assms obtain st fs0 ev0 r0 where l: "load fs = (Inr st, fs0, ev0)"
    unfolding update_data_for_season_def by (auto elim!: bindP_InrE)
  have f0: "fs0 = fs" using quietD(1)[OF quiet_load l] .
  from assms l obtain rows fs1 ev1 where b: "backfill env st fs0 = (Inr rows, fs1, ev1)"
    unfolding update_data_for_season_def by (auto elim!: bindP_InrE)
  have f1: "fs1 = fs" using quietD(1)[OF quiet_backfill b] f0 by simp
  from assms l b obtain posted fs2 ev2 where
    p: "posted_matches env season_id fs1 = (Inr posted, fs2, ev2)"
    unfolding update_data_for_season_def by (auto elim!: bindP_InrE)
  have f2: "fs2 = fs" using quietD(1)[OF quiet_posted_matches p] f1 by simp
  note c = run_after_scan[OF l b p]
  have sub: "cached_ld2l_ids st \<subseteq> posted"
  proof (rule ccontr)
    assume "\<not> cached_ld2l_ids st \<subseteq> posted"
    with c assms show False by simp
  qed
  let ?pn = "process_new env st (posted - cached_ld2l_ids st) rows"
  obtain r3 fs3 ev3 where pn: "?pn fs = (r3, fs3, ev3)" by (cases "?pn fs") auto
  have f3: "fs3 = fs" using quietD(1)[OF quiet_process_new pn] .
  from c sub assms have e: "(case bindP ?pn (persist (cached_id_pairings st)) fs of
                 (r, fs', ev) \<Rightarrow> (r, fs', ev0 @ ev1 @ ev2 @ ev)) = (Inr (), fs', evs)"
    by simp
  obtain acc where r3: "r3 = Inr acc"
    using e pn by (cases r3) (auto simp: bindP_def)
  have "fs' = fs\<lparr>cache_file := Some (json_dump (dict_union (cached_id_pairings st) (fst acc))),
              csv_file := Some (header # map (map csv_str) (snd acc))\<rparr>"
    using e pn r3 f3 by (auto simp: bindP_def persist_result)
  with l b p sub pn r3 f0 f1 f2 f3 show ?thesis by blast
qed

lemma posted_matches_finite:
  assumes "posted_matches env season_id fs = (Inr posted, fs2, ev2)"
  shows "finite posted"
  using assms
  by (auto simp: posted_matches_def bindP_def pull_from_def liftE_def
      scrape_ld2l_completed_matches_def bindE_def split: sum.splits prod.splits option.splits)

lemma process_new_result:
  assumes "process_new env st S rows fs = (Inr acc, fs', ev)"
  shows "\<exists>vs new. list_all2 (\<lambda>i v. mapped env i = Inr v) (if S \<noteq> {} then order_of env S else []) vs \<and>
     fst acc = dict_union [] (map (\<lambda>iv. (KInt (fst iv), snd iv))
                 (zip (if S \<noteq> {} then order_of env S else []) vs)) \<and>
     snd acc = rows @ new \<and>
     list_all2 (\<lambda>v row. stats_row env v = Inr row)
       (filter (\<lambda>v. v \<noteq> 0 \<and> v \<notin> known_data_ids st) vs) new"
proof (cases "S \<noteq> {}")
  case True
  with assms have "pair_and_pull env (known_data_ids st) (order_of env S) ([], rows) fs
      = (Inr acc, fs', ev)" by (simp add: process_new_def)
  from pair_and_pull_result[OF this] True show ?thesis by simp
next
  case False
  with assms have "acc = ([], rows)" by (auto simp: process_new_def returnP_def)
  with False show ?thesis by (simp add: dict_union_def)
qed

lemma backfill_result:
  assumes "backfill env st fs = (Inr rows, fs', ev)"
  shows "\<exists>new. rows = known_match_data st @ new \<and>
     list_all2 (\<lambda>v row. stats_row env v = Inr row)
       (if cached_od_ids st - known_data_ids st - {0} \<noteq> {}
        then order_of env (cached_od_ids st - known_data_ids st - {0}) else []) new"
proof (cases "cached_od_ids st - known_data_ids st - {0} \<noteq> {}")
  case True
  with assms have "pull_missing env (order_of env (cached_od_ids st - known_data_ids st - {0}))
      (known_match_data st) fs = (Inr rows, fs', ev)" by (simp add: backfill_def)
  from pull_missing_result[OF this] True show ?thesis by simp
next
  case False
  with assms show ?thesis by (simp add: backfill_def returnP_def)
qed


lemma desired_fields_synthetic:
  "desired_fields synthetic_match =
     Inr [PInt 55555, PInt 7, PInt 15, PInt 20, PInt 25, PInt 1500, PInt 15000,
          PNone, PInt 150, PInt 155, PInt 160, PInt 15000, PInt 150000]"
  by (simp add: desired_fields_def getitem_def bindE_def synthetic_match_def synthetic_player_def
      add_player_def add_stat_def stat_names_def py_index_def)

lemma league_new_ids: "{101, 103} - {103} = {101::int}" "{101, 103} - {} = {101, 103::int}"
  by auto

lemma sorted_league: "sorted_list_of_set {101, 103::int} = [101, 103]"
  by (simp add: sorted_list_of_set_insert_remove)

lemma league_run_old:
  "update_data_for_season league 33 old_files =
     (Inr (),
      \<lparr>cache_file = Some [(''103'', 0), (''101'', 55555)],
        csv_file = Some [header,
          [''55555'', ''7'', ''15'', ''20'', ''25'', ''1500'', ''15000'', [],
           ''150'', ''155'', ''160'', ''15000'', ''150000'']]\<rparr>,
      [Fetched ''https://ld2l.gg/seasons/33/matches'' True,
       Fetched ''https://ld2l.gg/matches/101'' True,
       Fetched ''https://api.opendota.com/api/matches/55555'' True, Wrote_cache, Wrote_csv])"
  by (simp add: run_eval league_def old_files_def league_new_ids desired_fields_synthetic)

lemma load_old_files:
  "load old_files =
     (Inr \<lparr>cached_id_pairings = [(KStr ''103'', 0)], cached_ld2l_ids = {103},
        cached_od_ids = {0}, known_match_data = [], known_data_ids = {}\<rparr>, old_files, [])"
  by (simp add: run_eval old_files_def)


lemma league_run_fresh:
  "update_data_for_season league 33 no_files = (Inr (), done_files,
      [Fetched ''https://ld2l.gg/seasons/33/matches'' True,
       Fetched ''https://ld2l.gg/matches/101'' True,
       Fetched ''https://api.opendota.com/api/matches/55555'' True,
       Fetched ''https://ld2l.gg/matches/103'' True, Wrote_cache, Wrote_csv])"
  by (simp add: run_eval league_def no_files_def done_files_def league_new_ids sorted_league
      desired_fields_synthetic)

subsection \<open>The pairing cache across runs\<close>

lemma json_dump_rewrap:
  assumes "fst ` set d \<subseteq> range KStr"
  shows "map (\<lambda>kv. (KStr (fst kv), snd kv)) (json_dump d) = d"
  using assms by (induction d) (auto simp: json_dump_def key_str_def)

lemma json_dump_keys_distinct:
  assumes "distinct (map fst d)" "fst ` set d \<subseteq> range KStr"
  shows "distinct (map fst (json_dump d))"
proof -
  have "distinct (map fst (map (\<lambda>kv. (KStr (fst kv), snd kv)) (json_dump d)))"
    using assms by (simp add: json_dump_rewrap)
  then have "distinct (map KStr (map fst (json_dump d)))" by (simp add: comp_def)
  then show ?thesis by (metis distinct_map)
qed

lemma key_int_py_str [simp]: "key_int (KStr (py_str i)) = Inr i"
  by (simp add: key_int_def int_of_str_def py_int_py_str)

lemma mapE_key_int_py_str: "mapE key_int (map (\<lambda>i. KStr (py_str i)) ids) = Inr ids"
  by (induction ids) simp_all

text \<open>
  A string key of the loaded dict that is the decimal form of an integer parses to that
  integer, which therefore is among the cached Informal IDs.
\<close>

lemma cached_key_is_cached_id:
  assumes "mapE key_int (map fst d) = Inr ks" and "(KStr (py_str i), v) \<in> set d"
  shows "i \<in> set ks"
proof -
  from assms(1) have "list_all2 (\<lambda>x y. key_int x = Inr y) (map fst d) ks"
    by (simp add: mapE_Inr_iff)
  then have len: "length d = length ks"
    and all: "\<And>j. j < length d \<Longrightarrow> key_int (fst (d ! j)) = Inr (ks ! j)"
    by (auto simp: list_all2_conv_all_nth)
  from assms(2) obtain j where j: "j < length d" "d ! j = (KStr (py_str i), v)"
    by (auto simp: in_set_conv_nth)
  from all[OF j(1)] j(2) have "ks ! j = i" by simp
  with j(1) len show ?thesis by (metis nth_mem)
qed

lemma posted_matches_same:
  "posted_matches env season_id fs = (r, fs2, ev2) \<Longrightarrow>
   posted_matches env season_id fs' = (r, fs', ev2)"
  by (auto simp: posted_matches_def bindP_def pull_from_def liftE_def split: sum.splits)

lemma iteration_okD:
  assumes "iteration_ok env" "finite S"
  shows "set (if S \<noteq> {} then order_of env S else []) = S"
    and "distinct (if S \<noteq> {} then order_of env S else [])"
  using assms by (auto simp: iteration_ok_def)

lemma zip_keys_distinct:
  assumes "distinct ids" "length ids = length vs"
  shows "distinct (map fst (map (\<lambda>iv. (KInt (fst iv), snd iv)) (zip ids vs)))"
proof -
  have "map fst (map (\<lambda>iv. (KInt (fst iv), snd iv)) (zip ids vs)) = map KInt ids"
    using assms(2) by (simp add: comp_def flip: map_map[of KInt fst, unfolded comp_def])
  then show ?thesis using assms(1) by (simp add: distinct_map inj_on_def)
qed

lemma zip_map_fst_eq:
  "length ids = length vs \<Longrightarrow> map (\<lambda>iv. f (fst iv)) (zip ids vs) = map f ids"
  by (induction ids vs rule: list_induct2) simp_all

lemma map_of_zip_mapped:
  assumes "distinct ids" "list_all2 (\<lambda>i v. g i = Inr v) ids vs" "n \<in> set ids" "inj f"
  shows "\<exists>v. g n = Inr v \<and> map_of (map (\<lambda>iv. (f (fst iv), snd iv)) (zip ids vs)) (f n) = Some v"
  using assms(2,1,3)
proof (induction ids vs rule: list_all2_induct)
  case Nil
  then show ?case by simp
next
  case (Cons i ids v vs)
  show ?case
  proof (cases "n = i")
    case True
    with Cons show ?thesis by simp
  next
    case False
    then have "f n \<noteq> f i" using assms(4) by (auto dest: injD)
    with Cons False show ?thesis by simp
  qed
qed

lemma visitedD:
  assumes "iteration_ok env" "finite S"
  shows "set (visited env S) = S" and "distinct (visited env S)"
  using iteration_okD[OF assms] by (simp_all add: visited_def)

text \<open>What a completed run leaves in the two files.\<close>

lemma completed_files:
  assumes it: "iteration_ok env"
    and run: "update_data_for_season env season_id fs = (Inr (), fs', evs)"
    and l: "load fs = (Inr st, fs0, ev0)"
    and p: "posted_matches env season_id fs = (Inr posted, fs2, ev2)"
  shows "\<exists>vs new1 new2.
     list_all2 (\<lambda>i v. mapped env i = Inr v) (visited env (posted - cached_ld2l_ids st)) vs \<and>
     cached_ld2l_ids st \<subseteq> posted \<and>
     list_all2 (\<lambda>v row. stats_row env v = Inr row)
       (visited env (cached_od_ids st - known_data_ids st - {0})) new1 \<and>
     list_all2 (\<lambda>v row. stats_row env v = Inr row)
       (filter (\<lambda>v. v \<noteq> 0 \<and> v \<notin> known_data_ids st) vs) new2 \<and>
     fs' = \<lparr>cache_file = Some (json_dump (cached_id_pairings st) @
                 map (\<lambda>iv. (py_str (fst iv), snd iv))
                   (zip (visited env (posted - cached_ld2l_ids st)) vs)),
            csv_file = Some (header # table_rows fs @ map (map csv_str) (new1 @ new2))\<rparr>"
proof -
  from update_completed[OF run] obtain st' rows posted' acc ev0' ev1 ev2' ev3 where
    l': "load fs = (Inr st', fs, ev0')"
    and b: "backfill env st' fs = (Inr rows, fs, ev1)"
    and p': "posted_matches env season_id fs = (Inr posted', fs, ev2')"
    and sub: "cached_ld2l_ids st' \<subseteq> posted'"
    and pn: "process_new env st' (posted' - cached_ld2l_ids st') rows fs = (Inr acc, fs, ev3)"
    and fs': "fs' = fs\<lparr>cache_file := Some (json_dump (dict_union (cached_id_pairings st') (fst acc))),
              csv_file := Some (header # map (map csv_str) (snd acc))\<rparr>"
    by blast
  from l l' have st: "st' = st" by simp
  from p p' have po: "posted' = posted" by simp
  let ?S = "posted - cached_ld2l_ids st"
  let ?ids = "visited env ?S"
  have fin: "finite ?S" using posted_matches_finite[OF p] by simp
  note ids = visitedD[OF it fin]
  from backfill_result[OF b] obtain new1 where
    r1: "rows = known_match_data st @ new1"
    and n1: "list_all2 (\<lambda>v row. stats_row env v = Inr row)
       (visited env (cached_od_ids st - known_data_ids st - {0})) new1"
    unfolding st visited_def by blast
  from process_new_result[OF pn] obtain vs new2 where
    m: "list_all2 (\<lambda>i v. mapped env i = Inr v) ?ids vs"
    and np: "fst acc = dict_union [] (map (\<lambda>iv. (KInt (fst iv), snd iv)) (zip ?ids vs))"
    and r2: "snd acc = rows @ new2"
    and n2: "list_all2 (\<lambda>v row. stats_row env v = Inr row)
       (filter (\<lambda>v. v \<noteq> 0 \<and> v \<notin> known_data_ids st) vs) new2"
    unfolding st po visited_def by blast
  have len: "length ?ids = length vs" using m by (rule list_all2_lengthD)
  let ?np = "map (\<lambda>iv. (KInt (fst iv), snd iv)) (zip ?ids vs)"
  have dnp: "distinct (map fst ?np)" using zip_keys_distinct[OF ids(2) len] .
  have np': "fst acc = ?np" unfolding np using dict_union_fresh[OF dnp, of "[]"] by simp
  have k: "fst ` set ?np \<subseteq> range KInt" by auto
  have ks: "fst ` set (cached_id_pairings st) \<subseteq> range KStr"
    using cache_pairs_keys[of fs] load_result(3)[OF l] by simp
  have "fst ` set (cached_id_pairings st) \<inter> fst ` set ?np \<subseteq> range KStr \<inter> range KInt"
    by (rule Int_mono[OF ks k])
  moreover have "range KStr \<inter> range KInt = {}" by auto
  ultimately have "fst ` set (cached_id_pairings st) \<inter> fst ` set ?np = {}" by simp
  from dict_union_fresh[OF dnp this]
  have u: "dict_union (cached_id_pairings st) ?np = cached_id_pairings st @ ?np" .
  have jn: "json_dump ?np = map (\<lambda>iv. (py_str (fst iv), snd iv)) (zip ?ids vs)"
    by (simp add: json_dump_def key_str_def comp_def)
  have c: "json_dump (dict_union (cached_id_pairings st') (fst acc)) =
      json_dump (cached_id_pairings st) @ map (\<lambda>iv. (py_str (fst iv), snd iv)) (zip ?ids vs)"
    by (simp only: st np' u json_dump_append jn)
  have t: "map (map csv_str) (snd acc) = table_rows fs @ map (map csv_str) (new1 @ new2)"
    by (simp add: r2 r1 load_result(4)[OF l])
  have "fs' = \<lparr>cache_file = Some (json_dump (cached_id_pairings st) @
                 map (\<lambda>iv. (py_str (fst iv), snd iv)) (zip ?ids vs)),
            csv_file = Some (header # table_rows fs @ map (map csv_str) (new1 @ new2))\<rparr>"
    unfolding fs' c t by simp
  with m sub n1 n2 st po show ?thesis by blast
qed

text \<open>The pairing cache that the next run loads from the file of a completed run.\<close>

lemma reloaded_cache:
  assumes it: "iteration_ok env"
    and l: "load fs = (Inr st, fs0, ev0)"
    and fin: "finite S" and dis: "S \<inter> cached_ld2l_ids st = {}"
    and len: "length (visited env S) = length vs"
    and cf: "cache_file fs' = Some (json_dump (cached_id_pairings st) @
                 map (\<lambda>iv. (py_str (fst iv), snd iv)) (zip (visited env S) vs))"
  shows "distinct (map fst (json_dump (cached_id_pairings st) @
                 map (\<lambda>iv. (py_str (fst iv), snd iv)) (zip (visited env S) vs)))"
    and "cache_pairs fs' = cached_id_pairings st @
           map (\<lambda>iv. (KStr (py_str (fst iv)), snd iv)) (zip (visited env S) vs)"
    and "\<exists>ks0. mapE key_int (map fst (cached_id_pairings st)) = Inr ks0 \<and>
           cached_ld2l_ids st = set ks0 \<and>
           mapE key_int (map fst (cache_pairs fs')) = Inr (ks0 @ visited env S)"
    and "\<And>n. n \<in> S \<Longrightarrow> map_of (cached_id_pairings st) (KStr (py_str n)) = None"
proof -
  let ?c = "cached_id_pairings st"
  let ?ids = "visited env S"
  let ?doc = "json_dump ?c @ map (\<lambda>iv. (py_str (fst iv), snd iv)) (zip ?ids vs)"
  note ids = visitedD[OF it fin]
  have c: "?c = cache_pairs fs" by (rule load_result(3)[OF l])
  have ck: "fst ` set ?c \<subseteq> range KStr" unfolding c by (rule cache_pairs_keys)
  have cd: "distinct (map fst ?c)" unfolding c by (rule cache_pairs_distinct)
  from load_result(6)[OF l] obtain ks0 where
    ks0: "mapE key_int (map fst ?c) = Inr ks0" "cached_ld2l_ids st = set ks0"
    unfolding c by blast
  have keys2: "map fst (map (\<lambda>iv. (py_str (fst iv), snd iv)) (zip ?ids vs)) = map py_str ?ids"
    using zip_map_fst_eq[OF len, of py_str] by (simp add: comp_def)
  have d1: "distinct (map fst (json_dump ?c))" by (rule json_dump_keys_distinct[OF cd ck])
  have d2: "distinct (map py_str ?ids)"
    using ids(2) by (simp add: distinct_map inj_on_def py_str_inj)
  show none: "map_of ?c (KStr (py_str n)) = None" if n: "n \<in> S" for n
  proof (rule ccontr)
    assume "map_of ?c (KStr (py_str n)) \<noteq> None"
    then obtain w where "(KStr (py_str n), w) \<in> set ?c" by (auto dest: map_of_SomeD)
    from cached_key_is_cached_id[OF ks0(1) this] n dis show False by (auto simp: ks0(2))
  qed
  have dj: "set (map fst (json_dump ?c)) \<inter> set (map py_str ?ids) = {}"
  proof (rule ccontr)
    assume "set (map fst (json_dump ?c)) \<inter> set (map py_str ?ids) \<noteq> {}"
    then obtain i k v where i: "i \<in> set ?ids" and kv: "(k, v) \<in> set ?c"
      and e: "key_str k = py_str i"
      by (auto simp: json_dump_def)
    from kv ck obtain s where "k = KStr s" by force
    with e kv have "(KStr (py_str i), v) \<in> set ?c" by (simp add: key_str_def)
    then have "map_of ?c (KStr (py_str i)) = Some v" using cd by simp
    with none[of i] i ids(1) show False by simp
  qed
  have mf: "map fst ?doc = map fst (json_dump ?c) @ map py_str ?ids"
    by (simp only: map_append keys2)
  show dd: "distinct (map fst ?doc)" unfolding mf distinct_append using d1 d2 dj by blast
  show cp: "cache_pairs fs' = ?c @ map (\<lambda>iv. (KStr (py_str (fst iv)), snd iv)) (zip ?ids vs)"
    using json_load_plain[OF dd] by (simp add: cache_pairs_def cf json_dump_rewrap[OF ck] comp_def)
  have k2: "map fst (map (\<lambda>iv. (KStr (py_str (fst iv)), snd iv)) (zip ?ids vs))
      = map (\<lambda>i. KStr (py_str i)) ?ids"
    using zip_map_fst_eq[OF len, of "\<lambda>i. KStr (py_str i)"] by (simp add: comp_def)
  have "mapE key_int (map fst (cache_pairs fs')) = Inr (ks0 @ ?ids)"
    unfolding cp map_append k2 by (rule mapE_append[OF ks0(1) mapE_key_int_py_str])
  with ks0 show "\<exists>ks0. mapE key_int (map fst ?c) = Inr ks0 \<and> cached_ld2l_ids st = set ks0 \<and>
           mapE key_int (map fst (cache_pairs fs')) = Inr (ks0 @ ?ids)" by blast
qed

text \<open>
  Claim C10. After a completed run the pairing cache file round-trips although the dict
  written mixes string keys (loaded) and integer keys (new): no two members of the
  written document share a key, the document has one member per loaded pairing and per
  new Informal ID, and loading it again and parsing the keys gives exactly the
  previously cached Informal IDs together with the new ones, each loaded key with its
  loaded value and each new ID with the Stats Match ID that the Identifier Mapper gave.
\<close>

theorem pairing_cache_round_trip:
  assumes it: "iteration_ok env"
    and run: "update_data_for_season env season_id fs = (Inr (), fs', evs)"
    and l: "load fs = (Inr st, fs0, ev0)"
    and p: "posted_matches env season_id fs = (Inr posted, fs2, ev2)"
  shows "\<exists>doc ks. cache_file fs' = Some doc \<and> distinct (map fst doc) \<and>
     length doc = length (cached_id_pairings st) + card (posted - cached_ld2l_ids st) \<and>
     mapE key_int (map fst (cache_pairs fs')) = Inr ks \<and>
     set ks = cached_ld2l_ids st \<union> (posted - cached_ld2l_ids st) \<and>
     (\<forall>k v. map_of (cached_id_pairings st) k = Some v \<longrightarrow> map_of (cache_pairs fs') k = Some v) \<and>
     (\<forall>n \<in> posted - cached_ld2l_ids st.
        \<exists>v. mapped env n = Inr v \<and> map_of (cache_pairs fs') (KStr (py_str n)) = Some v)"
proof -
  let ?S = "posted - cached_ld2l_ids st"
  let ?c = "cached_id_pairings st"
  let ?ids = "visited env ?S"
  from completed_files[OF it run l p] obtain vs where
    m: "list_all2 (\<lambda>i v. mapped env i = Inr v) ?ids vs"
    and cf: "cache_file fs' = Some (json_dump ?c @
                 map (\<lambda>iv. (py_str (fst iv), snd iv)) (zip ?ids vs))"
    by auto
  let ?doc = "json_dump ?c @ map (\<lambda>iv. (py_str (fst iv), snd iv)) (zip ?ids vs)"
  have fin: "finite ?S" using posted_matches_finite[OF p] by simp
  note ids = visitedD[OF it fin]
  have len: "length ?ids = length vs" using m by (rule list_all2_lengthD)
  have dis: "?S \<inter> cached_ld2l_ids st = {}" by auto
  note rc = reloaded_cache[OF it l fin dis len cf]
  from rc(3) obtain ks0 where ks0: "cached_ld2l_ids st = set ks0"
    and pk: "mapE key_int (map fst (cache_pairs fs')) = Inr (ks0 @ ?ids)" by blast
  note cp = rc(2)
  have ln: "length ?doc = length ?c + card ?S"
    using distinct_card[OF ids(2)] len by (simp add: json_dump_def ids(1))
  have old: "\<forall>k v. map_of ?c k = Some v \<longrightarrow> map_of (cache_pairs fs') k = Some v"
    by (simp add: cp)
  have new: "\<forall>n \<in> ?S. \<exists>v. mapped env n = Inr v \<and>
      map_of (cache_pairs fs') (KStr (py_str n)) = Some v"
  proof
    fix n assume n: "n \<in> ?S"
    then have ni: "n \<in> set ?ids" by (simp add: ids(1))
    have inj: "inj (\<lambda>i. KStr (py_str i))" by (auto simp: inj_on_def py_str_inj)
    from map_of_zip_mapped[OF ids(2) m ni inj] obtain v where
      v: "mapped env n = Inr v"
      "map_of (map (\<lambda>iv. (KStr (py_str (fst iv)), snd iv)) (zip ?ids vs)) (KStr (py_str n)) = Some v"
      by blast
    with rc(4)[OF n] show "\<exists>v. mapped env n = Inr v \<and>
      map_of (cache_pairs fs') (KStr (py_str n)) = Some v"
      by (simp add: cp map_add_def)
  qed
  have "set (ks0 @ ?ids) = cached_ld2l_ids st \<union> ?S"
    unfolding set_append ks0[symmetric] ids(1) by (rule refl)
  with cf rc(1) ln pk old new show ?thesis by blast
qed

lemma iteration_ok_league: "iteration_ok league"
  by (simp add: iteration_ok_def league_def)

lemma posted_league:
  "posted_matches league 33 fs =
     (Inr {101, 103}, fs, [Fetched ''https://ld2l.gg/seasons/33/matches'' True])"
  by (simp add: run_eval league_def)

theorem pairing_cache_round_trip_witness:
  "iteration_ok league \<and>
   (\<exists>doc ks. cache_file paired_files = Some doc \<and> distinct (map fst doc) \<and>
      length doc = 1 + card ({101, 103} - {103::int}) \<and>
      mapE key_int (map fst (cache_pairs paired_files)) = Inr ks \<and>
      set ks = {103} \<union> ({101, 103} - {103}))"
proof -
  have run: "update_data_for_season league 33 old_files =
     (Inr (), paired_files,
      [Fetched ''https://ld2l.gg/seasons/33/matches'' True,
       Fetched ''https://ld2l.gg/matches/101'' True,
       Fetched ''https://api.opendota.com/api/matches/55555'' True, Wrote_cache, Wrote_csv])"
    using league_run_old by (simp add: paired_files_def)
  from pairing_cache_round_trip [OF iteration_ok_league run load_old_files posted_league]
  obtain doc ks where "cache_file paired_files = Some doc" "distinct (map fst doc)"
    "length doc = 1 + card ({101, 103} - {103::int})"
    "mapE key_int (map fst (cache_pairs paired_files)) = Inr ks"
    "set ks = {103} \<union> ({101, 103} - {103})"
    by auto
  then show ?thesis using iteration_ok_league by blast
qed

subsection \<open>The table across runs\<close>

lemma row_id_csv [simp]: "row_id (csv_str (PInt v) # rest) = Inr v"
  by (simp add: row_id_def csv_str_def int_of_str_def py_int_py_str)

lemma new_rows_ids:
  assumes "rows_keyed_by_request env"
    and "list_all2 (\<lambda>v row. stats_row env v = Inr row) vs rows"
  shows "mapE row_id (map (map csv_str) rows) = Inr vs"
  using assms(2)
proof (induction vs rows rule: list_all2_induct)
  case Nil
  then show ?case by simp
next
  case (Cons v vs row rows)
  from assms(1) Cons.hyps(1) have "row_id (map csv_str row) = Inr v"
    unfolding rows_keyed_by_request_def by blast
  with Cons.IH show ?case by simp
qed

lemma list_all2_range:
  assumes "list_all2 R xs ys" "y \<in> set ys"
  shows "\<exists>x \<in> set xs. R x y"
  using assms by (induction xs ys rule: list_all2_induct) auto

lemma distinct_filter_mapped:
  assumes "list_all2 (\<lambda>i v. g i = Inr v) ids vs" "distinct ids"
    and inj: "\<forall>a b v. a \<noteq> b \<longrightarrow> g a = Inr v \<longrightarrow> g b = Inr v \<longrightarrow> v = 0"
  shows "distinct (filter (\<lambda>v. v \<noteq> 0 \<and> P v) vs)"
  using assms(1,2)
proof (induction ids vs rule: list_all2_induct)
  case Nil
  then show ?case by simp
next
  case (Cons i ids v vs)
  have "v \<notin> set vs" if "v \<noteq> 0"
  proof
    assume "v \<in> set vs"
    from list_all2_range[OF Cons.hyps(2) this] obtain b where b: "b \<in> set ids" "g b = Inr v"
      by blast
    with Cons.prems have "b \<noteq> i" by auto
    with inj b Cons.hyps(1) that show False by blast
  qed
  with Cons show ?case by auto
qed

subsection \<open>A Stats Source that answers with another match\<close>

lemma desired_fields_zero:
  "desired_fields zero_match =
     Inr [PInt 0, PInt 7, PInt 15, PInt 20, PInt 25, PInt 1500, PInt 15000,
          PNone, PInt 150, PInt 155, PInt 160, PInt 15000, PInt 150000]"
  by (simp add: desired_fields_def getitem_def bindE_def zero_match_def synthetic_match_def
      synthetic_player_def add_player_def add_stat_def stat_names_def py_index_def)

lemmas careless_eval = careless_league_def careless_http_def single_list_page_def
  desired_fields_zero zero_files_def zero_files_twice_def zero_row_def no_files_def

lemma careless_run_fresh:
  "update_data_for_season careless_league 33 no_files =
     (Inr (), zero_files,
      [Fetched ''https://ld2l.gg/seasons/33/matches'' True,
       Fetched ''https://ld2l.gg/matches/101'' True,
       Fetched ''https://api.opendota.com/api/matches/55555'' True, Wrote_cache, Wrote_csv])"
  by (simp add: run_eval careless_eval)

lemma careless_run_again:
  "update_data_for_season careless_league 33 zero_files =
     (Inr (), zero_files_twice,
      [Fetched ''https://api.opendota.com/api/matches/55555'' True,
       Fetched ''https://ld2l.gg/seasons/33/matches'' True, Wrote_cache, Wrote_csv])"
  by (simp add: run_eval careless_eval)

lemma py_str_101: "py_str a = ''101'' \<longleftrightarrow> a = 101"
proof
  assume "py_str a = ''101''"
  moreover have "py_str 101 = ''101''" by (simp add: py_str_eval)
  ultimately show "a = 101" by (metis py_str_inj)
next
  assume "a = 101" then show "py_str a = ''101''" by (simp add: py_str_eval)
qed

lemma mapped_careless: "mapped careless_league a = Inr v \<Longrightarrow> a = 101"
  by (simp add: mapped_def careless_league_def careless_http_def ld2l_base_def bindE_def
      py_str_101 split: if_splits)

lemma mapper_injective_careless: "mapper_injective careless_league"
  unfolding mapper_injective_def using mapped_careless by blast

lemma iteration_ok_careless: "iteration_ok careless_league"
  by (simp add: iteration_ok_def careless_league_def)

text \<open>
  Claim C2 as stated fails: nothing ties the \<^verbatim>\<open>match_id\<close> of the record that the
  Stats Source returns to the identifier that was requested. Here the table and the
  cache are absent, the only completed match 101 is mapped to Stats match 55555, and
  the Stats Source answers with a record whose \<^verbatim>\<open>match_id\<close> is 0: the run writes a
  table with a row for the sentinel.
\<close>

theorem stats_source_breaks_row_uniqueness:
  "iteration_ok careless_league \<and> mapper_injective careless_league \<and>
   table_ids no_files = Inr [] \<and> cache_pairs no_files = [] \<and>
   update_data_for_season careless_league 33 no_files =
     (Inr (), zero_files,
      [Fetched ''https://ld2l.gg/seasons/33/matches'' True,
       Fetched ''https://ld2l.gg/matches/101'' True,
       Fetched ''https://api.opendota.com/api/matches/55555'' True, Wrote_cache, Wrote_csv]) \<and>
   table_ids zero_files = Inr [0]"
  using iteration_ok_careless mapper_injective_careless careless_run_fresh
  by (simp add: table_ids_def table_rows_def cache_pairs_def no_files_def zero_files_def
      zero_row_def row_id_def py_int_eval)

lemma table_rows_written [simp]:
  "table_rows \<lparr>cache_file = c, csv_file = Some (header # rows)\<rparr> = rows"
  by (simp add: table_rows_def)

text \<open>
  Claim C2, amended. Take a completed run in which set iteration visits each member
  once, the Identifier Mapper maps no two distinct Informal IDs to the same non-zero
  Stats Match ID, and every row that the pull of a Stats Match ID yields has that ID as
  its \<^verbatim>\<open>stats_match_id\<close> (nothing is asked of a pull that fails). If the rows of the
  table at the start have pairwise distinct non-zero identifiers and every non-zero Stats
  Match ID of the pairing cache has a row, then the rows of the table written at the end
  have pairwise distinct identifiers, none of them 0.
\<close>

theorem table_ids_stay_distinct:
  assumes it: "iteration_ok env" and inj: "mapper_injective env" and keyed: "rows_keyed_by_request env"
    and run: "update_data_for_season env season_id fs = (Inr (), fs', evs)"
    and l: "load fs = (Inr st, fs0, ev0)"
    and t: "table_ids fs = Inr ids0" "distinct ids0" "0 \<notin> set ids0"
    and c: "cached_od_ids st - {0} \<subseteq> known_data_ids st"
  shows "\<exists>ids. table_ids fs' = Inr ids \<and> distinct ids \<and> 0 \<notin> set ids"
proof -
  from update_completed[OF run] obtain posted ev2 where
    p: "posted_matches env season_id fs = (Inr posted, fs, ev2)" by blast
  let ?S = "posted - cached_ld2l_ids st"
  let ?pulled = "\<lambda>vs. filter (\<lambda>v. v \<noteq> 0 \<and> v \<notin> known_data_ids st) vs"
  have M: "cached_od_ids st - known_data_ids st - {0} = {}" using c by auto
  from completed_files[OF it run l p] obtain vs new1 new2 where
    m: "list_all2 (\<lambda>i v. mapped env i = Inr v) (visited env ?S) vs"
    and n1: "list_all2 (\<lambda>v row. stats_row env v = Inr row)
       (visited env (cached_od_ids st - known_data_ids st - {0})) new1"
    and n2: "list_all2 (\<lambda>v row. stats_row env v = Inr row) (?pulled vs) new2"
    and fs': "fs' = \<lparr>cache_file = Some (json_dump (cached_id_pairings st) @
                 map (\<lambda>iv. (py_str (fst iv), snd iv)) (zip (visited env ?S) vs)),
            csv_file = Some (header # table_rows fs @ map (map csv_str) (new1 @ new2))\<rparr>"
    by blast
  from n1 have e1: "new1 = []" by (simp add: M visited_def)
  have fin: "finite ?S" using posted_matches_finite[OF p] by simp
  have k: "known_data_ids st = set ids0" using load_result(7)[OF l] t(1) by auto
  have ti: "table_ids fs' = Inr (ids0 @ ?pulled vs)"
    unfolding table_ids_def fs' table_rows_written e1 append_Nil
    by (rule mapE_append[OF t(1)[unfolded table_ids_def] new_rows_ids[OF keyed n2]])
  have "\<forall>a b v. a \<noteq> b \<longrightarrow> mapped env a = Inr v \<longrightarrow> mapped env b = Inr v \<longrightarrow> v = 0"
    using inj unfolding mapper_injective_def .
  from distinct_filter_mapped[OF m visitedD(2)[OF it fin] this]
  have d: "distinct (?pulled vs)" .
  have "distinct (ids0 @ ?pulled vs)" using t(2) d by (auto simp: k)
  moreover have "0 \<notin> set (ids0 @ ?pulled vs)" using t(3) by simp
  ultimately show ?thesis using ti by blast
qed

text \<open>
  On the small league whose Stats Source serves match 55555 under its own identifier and
  an error object for the unknown match 7, the run that starts from the cached forfeit
  103 and an empty table ends with the single row 55555.
\<close>

lemma py_str_103: "py_str a = ''103'' \<longleftrightarrow> a = 103"
proof
  assume "py_str a = ''103''"
  moreover have "py_str 103 = ''103''" by (simp add: py_str_eval)
  ultimately show "a = 103" by (metis py_str_inj)
next
  assume "a = 103" then show "py_str a = ''103''" by (simp add: py_str_eval)
qed

lemma py_str_55555: "py_str a = ''55555'' \<longleftrightarrow> a = 55555"
proof
  assume "py_str a = ''55555''"
  moreover have "py_str 55555 = ''55555''" by (simp add: py_str_eval)
  ultimately show "a = 55555" by (metis py_str_inj)
next
  assume "a = 55555" then show "py_str a = ''55555''" by (simp add: py_str_eval)
qed

lemma mapped_not_found:
  "mapped league_not_found a = Inr v \<Longrightarrow> (a = 101 \<and> v = 55555) \<or> (a = 103 \<and> v = 0)"
  by (simp add: mapped_def league_not_found_def league_http_def ld2l_base_def bindE_def
      ld2l_to_opendota_def detail_page_def py_int_eval py_str_101 py_str_103 split: if_splits)

lemma mapper_injective_not_found: "mapper_injective league_not_found"
  unfolding mapper_injective_def using mapped_not_found by blast

lemma iteration_ok_not_found: "iteration_ok league_not_found"
  by (simp add: iteration_ok_def league_not_found_def)

lemma desired_fields_error_object: "desired_fields error_object = Inl KeyError"
  by (simp add: desired_fields_def error_object_def getitem_def bindE_def)

text \<open>
  The pull of match 7 yields no row, since the extractor rejects the error object; the
  only pull that yields a row is that of match 55555.
\<close>

lemma stats_row_not_found:
  "stats_row league_not_found od_id = Inr row \<Longrightarrow>
     od_id = 55555 \<and> desired_fields synthetic_match = Inr row"
  by (simp add: stats_row_def league_not_found_def league_http_def od_base_def bindE_def
      py_str_55555 desired_fields_error_object split: if_splits)

lemma rows_keyed_not_found: "rows_keyed_by_request league_not_found"
  unfolding rows_keyed_by_request_def
proof (intro allI impI)
  fix od_id row
  assume "stats_row league_not_found od_id = Inr row"
  from stats_row_not_found[OF this] have "od_id = 55555"
    and "row = [PInt 55555, PInt 7, PInt 15, PInt 20, PInt 25, PInt 1500, PInt 15000,
          PNone, PInt 150, PInt 155, PInt 160, PInt 15000, PInt 150000]"
    by (simp_all add: desired_fields_synthetic)
  then show "row_id (map csv_str row) = Inr od_id" by simp
qed

lemma not_found_run_paired:
  "update_data_for_season league_not_found 33 old_files =
     (Inr (), paired_files,
      [Fetched ''https://ld2l.gg/seasons/33/matches'' True,
       Fetched ''https://ld2l.gg/matches/101'' True,
       Fetched ''https://api.opendota.com/api/matches/55555'' True, Wrote_cache, Wrote_csv])"
  by (simp add: run_eval league_not_found_def old_files_def paired_files_def league_new_ids
      desired_fields_synthetic)

theorem table_ids_stay_distinct_witness:
  "iteration_ok league_not_found \<and> mapper_injective league_not_found \<and>
   rows_keyed_by_request league_not_found \<and>
   table_ids old_files = Inr [] \<and>
   (\<exists>ids. table_ids paired_files = Inr ids \<and> distinct ids \<and> 0 \<notin> set ids)"
proof -
  have t: "table_ids old_files = Inr []" "distinct ([] :: int list)" "0 \<notin> set ([] :: int list)"
    by (simp_all add: table_ids_def table_rows_def old_files_def)
  let ?st = "\<lparr>cached_id_pairings = [(KStr ''103'', 0)], cached_ld2l_ids = {103},
        cached_od_ids = {0}, known_match_data = [], known_data_ids = {}\<rparr>"
  have c: "cached_od_ids ?st - {0} \<subseteq> known_data_ids ?st" by simp
  from table_ids_stay_distinct [OF iteration_ok_not_found mapper_injective_not_found
      rows_keyed_not_found not_found_run_paired load_old_files t c]
  show ?thesis
    using iteration_ok_not_found mapper_injective_not_found rows_keyed_not_found t(1)
    by blast
qed

text \<open>
  Claim C3 as stated fails for the same reason. With the Stats Source that answers the
  request for match 55555 with a record whose \<^verbatim>\<open>match_id\<close> is 0, the first run
  writes a row 0; the second run, with nothing changed upstream, misses a row for the
  cached 55555, pulls it again and writes a table with one row more.
\<close>

theorem second_run_differs:
  "update_data_for_season careless_league 33 no_files =
     (Inr (), zero_files,
      [Fetched ''https://ld2l.gg/seasons/33/matches'' True,
       Fetched ''https://ld2l.gg/matches/101'' True,
       Fetched ''https://api.opendota.com/api/matches/55555'' True, Wrote_cache, Wrote_csv]) \<and>
   update_data_for_season careless_league 33 zero_files =
     (Inr (), zero_files_twice,
      [Fetched ''https://api.opendota.com/api/matches/55555'' True,
       Fetched ''https://ld2l.gg/seasons/33/matches'' True, Wrote_cache, Wrote_csv]) \<and>
   zero_files_twice \<noteq> zero_files"
  using careless_run_fresh careless_run_again
  by (simp add: zero_files_def zero_files_twice_def)

text \<open>
  After a completed run, with set iteration visiting each member once and every pulled
  row carrying the requested identifier, the next run fetches the match list only and
  writes both files back as they are.
\<close>

lemma second_run_completed:
  assumes it: "iteration_ok env" and keyed: "rows_keyed_by_request env"
    and run: "update_data_for_season env season_id fs = (Inr (), fs', evs)"
  shows "update_data_for_season env season_id fs' =
     (Inr (), fs',
      [Fetched (ld2l_base @ ''seasons/'' @ py_str season_id @ ''/matches'') True,
       Wrote_cache, Wrote_csv])"
proof -
  from update_completed[OF run] obtain st posted ev0 ev2 where
    l: "load fs = (Inr st, fs, ev0)"
    and p: "posted_matches env season_id fs = (Inr posted, fs, ev2)" by blast
  let ?S = "posted - cached_ld2l_ids st"
  let ?M = "cached_od_ids st - known_data_ids st - {0}"
  let ?pulled = "\<lambda>vs. filter (\<lambda>v. v \<noteq> 0 \<and> v \<notin> known_data_ids st) vs"
  from completed_files[OF it run l p] obtain vs new1 new2 where
    m: "list_all2 (\<lambda>i v. mapped env i = Inr v) (visited env ?S) vs"
    and sub: "cached_ld2l_ids st \<subseteq> posted"
    and n1: "list_all2 (\<lambda>v row. stats_row env v = Inr row) (visited env ?M) new1"
    and n2: "list_all2 (\<lambda>v row. stats_row env v = Inr row) (?pulled vs) new2"
    and fs': "fs' = \<lparr>cache_file = Some (json_dump (cached_id_pairings st) @
                 map (\<lambda>iv. (py_str (fst iv), snd iv)) (zip (visited env ?S) vs)),
            csv_file = Some (header # table_rows fs @ map (map csv_str) (new1 @ new2))\<rparr>"
    by blast
  let ?doc = "json_dump (cached_id_pairings st) @
                 map (\<lambda>iv. (py_str (fst iv), snd iv)) (zip (visited env ?S) vs)"
  have cf: "cache_file fs' = Some ?doc" by (simp add: fs')
  have finS: "finite ?S" using posted_matches_finite[OF p] by simp
  have finM: "finite ?M" by (simp add: load_result(5)[OF l])
  have len: "length (visited env ?S) = length vs" using m by (rule list_all2_lengthD)
  have dis: "?S \<inter> cached_ld2l_ids st = {}" by auto
  note rc = reloaded_cache[OF it l finS dis len cf]
  from rc(3) obtain ks0 where ks0: "cached_ld2l_ids st = set ks0"
    and pk: "mapE key_int (map fst (cache_pairs fs')) = Inr (ks0 @ visited env ?S)" by blast
  from load_result(7)[OF l] obtain ids0 where
    ids0: "table_ids fs = Inr ids0" "known_data_ids st = set ids0" by blast
  have tr: "table_rows fs' = table_rows fs @ map (map csv_str) (new1 @ new2)"
    by (simp add: fs')
  have "mapE row_id (map (map csv_str) (new1 @ new2)) = Inr (visited env ?M @ ?pulled vs)"
    unfolding map_append
    by (rule mapE_append[OF new_rows_ids[OF keyed n1] new_rows_ids[OF keyed n2]])
  with ids0(1) have ti: "mapE row_id (table_rows fs') = Inr (ids0 @ visited env ?M @ ?pulled vs)"
    unfolding tr table_ids_def by (rule mapE_append)
  let ?st' = "\<lparr>cached_id_pairings = cache_pairs fs',
                cached_ld2l_ids = set (ks0 @ visited env ?S),
                cached_od_ids = set (map snd (cache_pairs fs')),
                known_match_data = map (map PStr) (table_rows fs'),
                known_data_ids = set (ids0 @ visited env ?M @ ?pulled vs)\<rparr>"
  have l': "load fs' = (Inr ?st', fs', [])" by (simp add: load_eq pk ti)
  have vS: "set (visited env ?S) = ?S" by (rule visitedD(1)[OF it finS])
  have vM: "set (visited env ?M) = ?M" by (rule visitedD(1)[OF it finM])
  have sn: "map snd (map (\<lambda>iv. (KStr (py_str (fst iv)), snd iv)) (zip (visited env ?S) vs)) = vs"
    using len by (simp add: comp_def)
  have od: "set (map snd (cache_pairs fs')) = cached_od_ids st \<union> set vs"
    unfolding rc(2) map_append set_append sn using load_result(3,5)[OF l] by simp
  have nb: "cached_od_ids ?st' - known_data_ids ?st' - {0} = {}"
  proof -
    have a: "cached_od_ids ?st' = cached_od_ids st \<union> set vs"
      by (simp only: loaded.select_convs od)
    have b: "known_data_ids ?st' = set ids0 \<union> (?M \<union> set (?pulled vs))"
      by (simp only: loaded.select_convs set_append vM)
    show ?thesis unfolding a b using ids0(2) by auto
  qed
  have p': "posted_matches env season_id fs' = (Inr posted, fs', ev2)"
    by (rule posted_matches_same[OF p])
  have cl: "cached_ld2l_ids ?st' = posted" using sub by (auto simp: vS ks0[symmetric])
  have nn: "posted - cached_ld2l_ids ?st' = {}" unfolding cl by simp
  have ao: "cached_ld2l_ids ?st' - posted = {}" unfolding cl by simp
  have jl: "json_dump (cache_pairs fs') = ?doc"
  proof -
    have "cache_pairs fs' = json_load ?doc" by (simp only: cache_pairs_def cf option.case)
    also have "\<dots> = map (\<lambda>kv. (KStr (fst kv), snd kv)) ?doc"
      by (rule json_load_plain[OF rc(1)])
    finally show ?thesis by (simp only: json_dump_plain)
  qed
  have "\<lparr>cache_file = Some (json_dump (cache_pairs fs')),
         csv_file = Some (header # table_rows fs')\<rparr> = fs'"
    unfolding jl tr by (simp add: fs')
  with run_without_new_data[OF l' nb p' nn ao] show ?thesis by simp
qed

lemma failed_run_keeps_files:
  assumes "update_data_for_season env season_id fs = (Inl e, fs', evs)"
  shows "fs' = fs"
  using guardedD(2)[OF guarded_update assms] by (simp add: raised_def)

text \<open>
  Claim C3, amended. Provided that set iteration visits each member once and that every
  row that the pull of a Stats Match ID yields has that ID as its \<^verbatim>\<open>stats_match_id\<close>
  (nothing is asked of a pull that fails), running \<open>update_data_for_season\<close> again for
  the same season and table, with the same upstream answers, ends like the first run did
  (normally, or with the same exception) and leaves the pairing cache file and the table
  file with the contents they had after the first run.
\<close>

theorem second_run_changes_nothing:
  assumes it: "iteration_ok env" and keyed: "rows_keyed_by_request env"
    and run: "update_data_for_season env season_id fs = (r, fs', evs)"
  shows "fst (update_data_for_season env season_id fs') = r \<and>
         fst (snd (update_data_for_season env season_id fs')) = fs'"
proof (cases r)
  case (Inl e)
  with run have "fs' = fs" using failed_run_keeps_files by blast
  with run show ?thesis by simp
next
  case (Inr u)
  with run have "update_data_for_season env season_id fs = (Inr (), fs', evs)" by simp
  from second_run_completed[OF it keyed this] Inr show ?thesis by simp
qed

text \<open>
  On the same league the second run ends normally and leaves the files of the first.
\<close>

theorem second_run_changes_nothing_witness:
  "iteration_ok league_not_found \<and> rows_keyed_by_request league_not_found \<and>
   fst (update_data_for_season league_not_found 33 paired_files) = Inr () \<and>
   fst (snd (update_data_for_season league_not_found 33 paired_files)) = paired_files"
  using second_run_changes_nothing [OF iteration_ok_not_found rows_keyed_not_found
      not_found_run_paired]
    iteration_ok_not_found rows_keyed_not_found by simp

end
